theory Spec2Isabelle
  imports Complex_Main "HOL-Library.Multiset"
begin

section \<open>Data model\<close>

text \<open>
  The engine files (\<open>constants.ts\<close>, \<open>evaluation.ts\<close>, \<open>adaptiveAI.ts\<close>,
  \<open>hyperbolicAI.ts\<close>) are embedded function by function.  JavaScript numbers are
  modelled by \<open>real\<close> (no rounding, no NaN); the two infinities that the search uses as
  initial bounds are added by the type \<open>jsnum\<close> below.  Loop counters that only ever hold
  integers are \<open>int\<close>.
\<close>

datatype color = White | Black

datatype piece_type = Pawn | Knight | Bishop | Rook | Queen | King

text \<open>An entry of \<open>game.board()\<close>: the code reads \<open>piece.type\<close> and \<open>piece.color\<close>.\<close>

record piece =
  ptype :: piece_type
  pcolor :: color

text \<open>A verbose move of chess.js: the code reads \<open>san\<close>, \<open>to\<close>, \<open>captured\<close>
  and \<open>promotion\<close>.\<close>

record move =
  san :: string
  from_sq :: string
  to_sq :: string
  captured :: "piece_type option"
  promotion :: "piece_type option"

text \<open>
  The rules engine (the \<open>Chess\<close> class of chess.js) is an external library.  It is a
  parameter of every function: a record of the queries the code makes on a position of
  type \<open>'p\<close>.
  \<^item> \<open>board\<close> is \<open>game.board()\<close>, rows from rank 8 down to rank 1;
  \<^item> \<open>moves\<close> is \<open>game.moves({verbose: true})\<close>, and \<open>game.moves()\<close> is the list of
    their \<open>san\<close> fields;
  \<^item> \<open>moves_from\<close> is \<open>game.moves({square: sq, verbose: true})\<close>;
  \<^item> \<open>make_move p s\<close> is \<open>clone = new Chess(game.fen()); clone.move(s)\<close>: the
    position reached, or \<open>None\<close> where chess.js throws on a move it does not accept.
\<close>

record 'p rules =
  board :: "'p \<Rightarrow> piece option list list"
  turn :: "'p \<Rightarrow> color"
  moves :: "'p \<Rightarrow> move list"
  moves_from :: "'p \<Rightarrow> string \<Rightarrow> move list"
  make_move :: "'p \<Rightarrow> string \<Rightarrow> 'p option"
  inCheck :: "'p \<Rightarrow> bool"
  isCheckmate :: "'p \<Rightarrow> bool"
  isGameOver :: "'p \<Rightarrow> bool"

definition moves_san :: "'p rules \<Rightarrow> 'p \<Rightarrow> string list" where
  "moves_san E game = map san (moves E game)"

datatype error = InvalidMove | TypeError

section \<open>constants.ts\<close>

fun PIECE_VALUES :: "piece_type \<Rightarrow> real" where
  "PIECE_VALUES Pawn = 1"
| "PIECE_VALUES Knight = 3"
| "PIECE_VALUES Bishop = 3"
| "PIECE_VALUES Rook = 5"
| "PIECE_VALUES Queen = 9"
| "PIECE_VALUES King = 0"

definition CENTER_SQUARES :: "string list" where
  "CENTER_SQUARES = [''e4'', ''d4'', ''e5'', ''d5'']"

section \<open>evaluation.ts\<close>

text \<open>\<open>board[r][c]\<close>, and the square name
  \<open>String.fromCharCode(97 + c) + (8 - r)\<close> for \<open>r, c < 8\<close>.\<close>

definition cell :: "piece option list list \<Rightarrow> nat \<Rightarrow> nat \<Rightarrow> piece option" where
  "cell b r c = b ! r ! c"

definition square_name :: "nat \<Rightarrow> nat \<Rightarrow> string" where
  "square_name r c = [char_of (97 + c), char_of (48 + (8 - r))]"

text \<open>The double loop \<open>for r < 8, for c < 8\<close> running a body on an accumulator.\<close>

definition for_squares :: "(nat \<Rightarrow> nat \<Rightarrow> 'a \<Rightarrow> 'a) \<Rightarrow> 'a \<Rightarrow> 'a" where
  "for_squares body acc0 =
     fold (\<lambda>r acc. fold (\<lambda>c acc'. body r c acc') [0..<8] acc) [0..<8] acc0"

definition countAttacks :: "'p rules \<Rightarrow> 'p \<Rightarrow> string \<Rightarrow> nat" where
  "countAttacks E game sq = length (moves_from E game sq)"

definition assessCenterControl :: "'p rules \<Rightarrow> 'p \<Rightarrow> real" where
  "assessCenterControl E game =
     min 1 (fold (\<lambda>csq control.
        let file = of_char (csq ! 0) - (97::nat);
            rank = 8 - (of_char (csq ! 1) - (48::nat))
        in if (case cell (board E game) rank file of
                 None \<Rightarrow> False
               | Some piece \<Rightarrow> pcolor piece = turn E game)
           then control + 0.25
           else if list_ex (\<lambda>m. to_sq m = csq) (moves E game)
                then control + 0.15
                else control)
        CENTER_SQUARES 0)"

text \<open>The loop state of \<open>assessPieceDevelopment\<close> is the pair
  \<open>(developed, totalPieces)\<close>.\<close>

definition development_step ::
  "piece option list list \<Rightarrow> color \<Rightarrow> nat \<Rightarrow> nat \<Rightarrow> int \<times> int \<Rightarrow> int \<times> int" where
  "development_step b t r c acc =
     (case cell b r c of
        None \<Rightarrow> acc
      | Some piece \<Rightarrow>
          if pcolor piece \<noteq> t then acc
          else let (developed, totalPieces) = acc in
            if ptype piece = Pawn then (developed, totalPieces + 1)
            else let rank = 8 - int r in
              if (t = White \<and> rank > 1) \<or> (t = Black \<and> rank < 8)
              then (developed + 1, totalPieces + 1)
              else (developed, totalPieces + 1))"

definition assessPieceDevelopment :: "'p rules \<Rightarrow> 'p \<Rightarrow> real" where
  "assessPieceDevelopment E game =
     (let (developed, totalPieces) =
        for_squares (development_step (board E game) (turn E game)) (0, 0)
      in real_of_int developed / real_of_int (max 1 (totalPieces - 8)))"

definition calculateUndefendedPenalty :: "'p rules \<Rightarrow> 'p \<Rightarrow> real" where
  "calculateUndefendedPenalty E game =
     min 0.3 (for_squares (\<lambda>r c penalty.
        case cell (board E game) r c of
          None \<Rightarrow> penalty
        | Some piece \<Rightarrow>
            if pcolor piece \<noteq> turn E game then penalty
            else if list_ex (\<lambda>m. to_sq m = square_name r c \<and> captured m \<noteq> None)
                      (moves E game)
                 then penalty + 0.05 * PIECE_VALUES (ptype piece)
                 else penalty) 0)"

text \<open>\<open>x || 0\<close> on a number: \<open>0\<close> is the only falsy value that can occur.\<close>

definition js_or :: "real \<Rightarrow> real \<Rightarrow> real" where
  "js_or x y = (if x = 0 then y else x)"

definition moveHeuristic :: "'p \<Rightarrow> move \<Rightarrow> real" where
  "moveHeuristic game m =
     (case captured m of
        Some k \<Rightarrow> 10 + js_or (PIECE_VALUES k) 0
      | None \<Rightarrow>
          if promotion m \<noteq> None then 15
          else if CHR ''+'' \<in> set (san m) then 5
          else 0)"

definition calculatePositionComplexity :: "'p rules \<Rightarrow> 'p \<Rightarrow> real" where
  "calculatePositionComplexity E game =
     for_squares (\<lambda>r c complexity.
        case cell (board E game) r c of
          None \<Rightarrow> complexity
        | Some piece \<Rightarrow>
            complexity + 1 + real (countAttacks E game (square_name r c)) * 0.2) 0"

section \<open>adaptiveAI.ts\<close>

datatype opponent_style = Unknown | Aggressive | Defensive | Balanced

text \<open>An element of \<open>history\<close>: the fields \<open>skillEstimate\<close>, \<open>style\<close>,
  \<open>qualityScore\<close> and \<open>styleScore\<close>.\<close>

record history_entry =
  entry_skillEstimate :: real
  entry_style :: opponent_style
  entry_qualityScore :: real
  entry_styleScore :: real

record AdaptiveChessAI =
  modelPath :: string
  opponentSkillEstimate :: real
  opponentStyle :: opponent_style
  adaptiveFactor :: real
  history :: "history_entry list"

text \<open>The field initialisers of the class.\<close>

definition new_AdaptiveChessAI :: AdaptiveChessAI where
  "new_AdaptiveChessAI =
     \<lparr>modelPath = ''hybrid_checkpoint.pth'', opponentSkillEstimate = 5,
      opponentStyle = Unknown, adaptiveFactor = 0.8, history = []\<rparr>"

subsection \<open>Opponent assessment\<close>

definition analyzeMoveQuality :: "'p rules \<Rightarrow> 'p \<Rightarrow> string \<Rightarrow> error + real" where
  "analyzeMoveQuality E game moveSan =
     (if moveSan \<notin> set (moves_san E game) then Inr 0.1
      else case make_move E game moveSan of
        None \<Rightarrow> Inl InvalidMove
      | Some clone \<Rightarrow>
          let quality = 0.5;
              quality = (if inCheck E clone then quality + 0.3 else quality)
          in if isCheckmate E clone then Inr 1.0
             else
               let quality = (if CHR ''x'' \<in> set moveSan then quality + 0.2 else quality);
                   centerControl = assessCenterControl E clone;
                   pieceDev = assessPieceDevelopment E clone;
                   quality = quality + (centerControl + pieceDev) / 4;
                   quality = quality - calculateUndefendedPenalty E clone
               in Inr (min 1.0 (max 0.1 quality)))"

text \<open>The loop state of \<open>analyzeMoveStyle\<close> is the pair
  \<open>(attackScore, defenseScore)\<close>.\<close>

definition style_step ::
  "'p rules \<Rightarrow> 'p \<Rightarrow> nat \<Rightarrow> nat \<Rightarrow> real \<times> real \<Rightarrow> real \<times> real" where
  "style_step E clone r c acc =
     (case cell (board E clone) r c of
        None \<Rightarrow> acc
      | Some piece \<Rightarrow>
          if pcolor piece \<noteq> turn E clone then acc
          else let (attackScore, defenseScore) = acc;
                   pieceMoves = moves_from E clone (square_name r c)
               in (fold (\<lambda>m a. if captured m \<noteq> None then a + 1 else a) pieceMoves attackScore,
                   defenseScore
                     + real (length (filter (\<lambda>m. captured m = None) pieceMoves)) * 0.1))"

definition analyzeMoveStyle :: "'p rules \<Rightarrow> 'p \<Rightarrow> string \<Rightarrow> error + real" where
  "analyzeMoveStyle E game moveSan =
     (if moveSan \<notin> set (moves_san E game) then Inr 0.0
      else case make_move E game moveSan of
        None \<Rightarrow> Inl InvalidMove
      | Some clone \<Rightarrow>
          let (attackScore, defenseScore) = for_squares (style_step E clone) (0, 0)
          in if attackScore + defenseScore = 0 then Inr 0
             else Inr ((attackScore - defenseScore) / max 1 (attackScore + defenseScore)))"

text \<open>The divisor \<open>timeTaken + 0.5\<close> is positive for the elapsed times the
  function is called with, \<open>timeTaken \<ge> 0\<close>.  At \<open>timeTaken = -0.5\<close> JavaScript
  divides to \<open>Infinity\<close> and HOL to \<open>0\<close>, so the statements about the skill
  estimate below take \<open>timeTaken \<ge> 0\<close>.\<close>

definition updateOpponentAssessment ::
  "'p rules \<Rightarrow> AdaptiveChessAI \<Rightarrow> 'p \<Rightarrow> string \<Rightarrow> real \<Rightarrow> error + AdaptiveChessAI" where
  "updateOpponentAssessment E this game moveSan timeTaken =
     (case analyzeMoveQuality E game moveSan of
        Inl e \<Rightarrow> Inl e
      | Inr qualityScore \<Rightarrow>
     (case analyzeMoveStyle E game moveSan of
        Inl e \<Rightarrow> Inl e
      | Inr styleScore \<Rightarrow>
          let skillAdjustment = qualityScore * (1.0 / (timeTaken + 0.5));
              skill' = (1 - adaptiveFactor this) * opponentSkillEstimate this
                       + adaptiveFactor this * min 10 (max 1 (skillAdjustment * 10));
              style' = (if styleScore > 0.6 then Aggressive
                        else if styleScore < - 0.6 then Defensive
                        else Balanced)
          in Inr (this\<lparr>opponentSkillEstimate := skill',
                        opponentStyle := style',
                        history := history this @
                          [\<lparr>entry_skillEstimate = skill', entry_style = style',
                            entry_qualityScore = qualityScore,
                            entry_styleScore = styleScore\<rparr>]\<rparr>)))"

text \<open>A session: the calls \<open>(game, moveSan, timeTaken)\<close> made one after the other
  on the same engine object; an exception ends it.\<close>

fun assessments ::
  "'p rules \<Rightarrow> AdaptiveChessAI \<Rightarrow> ('p \<times> string \<times> real) list \<Rightarrow> error + AdaptiveChessAI" where
  "assessments E this [] = Inr this"
| "assessments E this ((game, moveSan, timeTaken) # calls) =
     (case updateOpponentAssessment E this game moveSan timeTaken of
        Inl e \<Rightarrow> Inl e
      | Inr this' \<Rightarrow> assessments E this' calls)"

subsection \<open>Skill and depth\<close>

text \<open>\<open>Math.round\<close> rounds to the nearest integer, halves upwards.  The values
  of \<open>Math.random()\<close> are arguments: \<open>u\<close>, \<open>u1\<close>, \<open>u2\<close>.\<close>

definition js_round :: "real \<Rightarrow> int" where
  "js_round x = \<lfloor>x + 1 / 2\<rfloor>"

definition getSkillLevel :: "AdaptiveChessAI \<Rightarrow> real \<Rightarrow> real" where
  "getSkillLevel this u =
     (let adjustment = u * 1.5 - 0.5;
          skill = min 10 (max 1 (opponentSkillEstimate this + adjustment))
      in if length (history this) > 10 then min 10 (skill + 1) else skill)"

definition depthTable :: "int \<rightharpoonup> int" where
  "depthTable = map_of [(1, 1), (2, 2), (3, 3), (4, 4), (5, 5),
                        (6, 6), (7, 6), (8, 7), (9, 8), (10, 9)]"

definition getDepthForOpponent :: "AdaptiveChessAI \<Rightarrow> real \<Rightarrow> real \<Rightarrow> int" where
  "getDepthForOpponent this u1 u2 =
     (let skill = js_round (opponentSkillEstimate this);
          depth = (case depthTable (min 10 (max 1 skill)) of Some d \<Rightarrow> d | None \<Rightarrow> 4);
          depth = depth + (if u1 < 0.3 then 1 else 0);
          depth = depth - (if u2 < 0.3 then 1 else 0)
      in max 1 depth)"

subsection \<open>Board evaluation\<close>

definition calculateDefenseBonus :: "'p rules \<Rightarrow> 'p \<Rightarrow> real" where
  "calculateDefenseBonus E game =
     for_squares (\<lambda>r c defenseScore.
        case cell (board E game) r c of
          None \<Rightarrow> defenseScore
        | Some piece \<Rightarrow>
            if pcolor piece \<noteq> turn E game then defenseScore
            else defenseScore
                   + real (length (moves_from E game (square_name r c))) * 0.05) 0"

definition calculateAttackBonus :: "'p rules \<Rightarrow> 'p \<Rightarrow> real" where
  "calculateAttackBonus E game =
     for_squares (\<lambda>r c attackScore.
        case cell (board E game) r c of
          None \<Rightarrow> attackScore
        | Some piece \<Rightarrow>
            if pcolor piece = turn E game then attackScore
            else attackScore
                   + real (length (filter
                        (\<lambda>m. to_sq m = square_name r c \<and> captured m \<noteq> None)
                        (moves E game))) * 0.08) 0"

definition material_step :: "piece option list list \<Rightarrow> nat \<Rightarrow> nat \<Rightarrow> real \<Rightarrow> real" where
  "material_step b r c evalScore =
     (case cell b r c of
        None \<Rightarrow> evalScore
      | Some piece \<Rightarrow>
          if pcolor piece = White then evalScore + PIECE_VALUES (ptype piece)
          else evalScore - PIECE_VALUES (ptype piece))"

definition evaluateBoard :: "'p rules \<Rightarrow> AdaptiveChessAI \<Rightarrow> 'p \<Rightarrow> real" where
  "evaluateBoard E this game =
     (let evalScore = for_squares (material_step (board E game)) 0
      in if opponentStyle this = Aggressive
         then evalScore + calculateDefenseBonus E game * (if turn E game = Black then 1 else - 1)
         else if opponentStyle this = Defensive
         then evalScore + calculateAttackBonus E game * (if turn E game = Black then 1 else - 1)
         else evalScore)"

subsection \<open>Search values and the random source\<close>

text \<open>The search starts from \<open>-Infinity\<close> and \<open>Infinity\<close>; every other value it
  handles is a finite number.\<close>

datatype jsnum = NegInf | Num real | PosInf

instantiation jsnum :: linorder
begin

fun less_eq_jsnum :: "jsnum \<Rightarrow> jsnum \<Rightarrow> bool" where
  "less_eq_jsnum NegInf y = True"
| "less_eq_jsnum (Num a) NegInf = False"
| "less_eq_jsnum (Num a) (Num b) = (a \<le> b)"
| "less_eq_jsnum (Num a) PosInf = True"
| "less_eq_jsnum PosInf PosInf = True"
| "less_eq_jsnum PosInf y = False"

definition less_jsnum :: "jsnum \<Rightarrow> jsnum \<Rightarrow> bool" where
  "less_jsnum x y = (x \<le> y \<and> \<not> y \<le> x)"

instance
proof
  fix x y z :: jsnum
  show "(x < y) = (x \<le> y \<and> \<not> y \<le> x)"
    by (simp add: less_jsnum_def)
  show "x \<le> x"
    by (cases x) simp_all
  show "x \<le> y \<Longrightarrow> y \<le> z \<Longrightarrow> x \<le> z"
    by (cases x; cases y; cases z) simp_all
  show "x \<le> y \<Longrightarrow> y \<le> x \<Longrightarrow> x = y"
    by (cases x; cases y) simp_all
  show "x \<le> y \<or> y \<le> x"
    by (cases x; cases y) auto
qed

end

text \<open>
  \<open>Math.random()\<close> is ambient state.  It is made explicit as a random source of type
  \<open>'r\<close>: \<open>random\<close> returns the next value and the source after the draw, and
  \<open>shuffle\<close> is \<open>moves.sort(() => Math.random() - 0.5)\<close>, whose outcome for an
  inconsistent comparator is left to the JavaScript engine.
\<close>

record 'r rng =
  random :: "'r \<Rightarrow> real \<times> 'r"
  shuffle :: "'r \<Rightarrow> move list \<Rightarrow> move list \<times> 'r"

text \<open>\<open>moves.sort((a, b) => moveHeuristic(game, b) - moveHeuristic(game, a))\<close>:
  \<open>Array.prototype.sort\<close> is stable, and so is \<open>sort_key\<close>.\<close>

definition sort_by_heuristic :: "'p \<Rightarrow> move list \<Rightarrow> move list" where
  "sort_by_heuristic game ms = sort_key (\<lambda>m. - moveHeuristic game m) ms"

subsection \<open>Minimax with alpha-beta\<close>

text \<open>
  \<open>minimax\<close> is called with \<open>depth - 1\<close> for an integer \<open>depth \<ge> 1\<close> and counts
  down to \<open>0\<close>, so \<open>depth\<close> is a \<open>nat\<close> here.  \<open>minimax_loop\<close> is the
  \<open>for (const move of moves)\<close> loop of either branch, on the rest of the list, with
  \<open>maxEval\<close> or \<open>minEval\<close> in \<open>best\<close>; \<open>break\<close> returns at once.
\<close>

fun minimax ::
  "'p rules \<Rightarrow> 'r rng \<Rightarrow> AdaptiveChessAI \<Rightarrow> nat \<Rightarrow> 'p \<Rightarrow> jsnum \<Rightarrow> jsnum \<Rightarrow> bool \<Rightarrow> real
     \<Rightarrow> 'r \<Rightarrow> error + (jsnum \<times> 'r)"
and minimax_loop ::
  "'p rules \<Rightarrow> 'r rng \<Rightarrow> AdaptiveChessAI \<Rightarrow> nat \<Rightarrow> 'p \<Rightarrow> move list \<Rightarrow> jsnum \<Rightarrow> jsnum \<Rightarrow> jsnum
     \<Rightarrow> bool \<Rightarrow> real \<Rightarrow> 'r \<Rightarrow> error + (jsnum \<times> 'r)"
where
  "minimax E G this 0 game alpha beta maximizing skillLevel rs =
     Inr (Num (evaluateBoard E this game), rs)"
| "minimax E G this (Suc d) game alpha beta maximizing skillLevel rs =
     (if isGameOver E game then Inr (Num (evaluateBoard E this game), rs)
      else
        let (ms, rs') =
              (if skillLevel < 5
               then let (u, rs1) = random G rs
                    in if u < 0.3 then shuffle G rs1 (moves E game)
                       else (moves E game, rs1)
               else (sort_by_heuristic game (moves E game), rs))
        in minimax_loop E G this d game ms (if maximizing then NegInf else PosInf)
             alpha beta maximizing skillLevel rs')"
| "minimax_loop E G this d game [] best alpha beta maximizing skillLevel rs =
     Inr (best, rs)"
| "minimax_loop E G this d game (m # ms) best alpha beta maximizing skillLevel rs =
     (case make_move E game (san m) of
        None \<Rightarrow> Inl InvalidMove
      | Some clone \<Rightarrow>
     (case minimax E G this d clone alpha beta (\<not> maximizing) skillLevel rs of
        Inl e \<Rightarrow> Inl e
      | Inr (ev, rs') \<Rightarrow>
          if maximizing
          then let maxEval = max best ev; alpha' = max alpha ev
               in if beta \<le> alpha' then Inr (maxEval, rs')
                  else minimax_loop E G this d game ms maxEval alpha' beta
                         maximizing skillLevel rs'
          else let minEval = min best ev; beta' = min beta ev
               in if beta' \<le> alpha then Inr (minEval, rs')
                  else minimax_loop E G this d game ms minEval alpha beta'
                         maximizing skillLevel rs'))"

text \<open>The root loop of \<open>getMove\<close>, on the rest of the candidate list.\<close>

fun getMove_loop ::
  "'p rules \<Rightarrow> 'r rng \<Rightarrow> AdaptiveChessAI \<Rightarrow> 'p \<Rightarrow> nat \<Rightarrow> real \<Rightarrow> move list \<Rightarrow> move \<Rightarrow> jsnum
     \<Rightarrow> jsnum \<Rightarrow> jsnum \<Rightarrow> 'r \<Rightarrow> error + (string option \<times> 'r)" where
  "getMove_loop E G this game d skillLevel [] bestMove bestValue alpha beta rs =
     Inr (Some (san bestMove), rs)"
| "getMove_loop E G this game d skillLevel (m # ms) bestMove bestValue alpha beta rs =
     (case make_move E game (san m) of
        None \<Rightarrow> Inl InvalidMove
      | Some clone \<Rightarrow>
     (case minimax E G this d clone alpha beta (turn E game = Black) skillLevel rs of
        Inl e \<Rightarrow> Inl e
      | Inr (ev, rs') \<Rightarrow>
          let ((bestValue', bestMove'), alpha', beta') =
                (if turn E game = White
                 then (if ev > bestValue then (ev, m) else (bestValue, bestMove),
                       max alpha ev, beta)
                 else (if ev < bestValue then (ev, m) else (bestValue, bestMove),
                       alpha, min beta ev))
          in if (turn E game = White \<and> bestValue' \<ge> Num 100)
                \<or> (turn E game = Black \<and> bestValue' \<le> Num (- 100))
             then Inr (Some (san bestMove'), rs')
             else getMove_loop E G this game d skillLevel ms bestMove' bestValue'
                    alpha' beta' rs'))"

definition getMove ::
  "'p rules \<Rightarrow> 'r rng \<Rightarrow> AdaptiveChessAI \<Rightarrow> 'p \<Rightarrow> 'r \<Rightarrow> error + (string option \<times> 'r)" where
  "getMove E G this game rs =
     (let (u, rs1) = random G rs;
          skillLevel = getSkillLevel this u;
          (u1, rs2) = random G rs1;
          (u2, rs3) = random G rs2;
          depth = getDepthForOpponent this u1 u2;
          pieceCount = length (filter (\<lambda>p. p \<noteq> None) (concat (board E game)));
          depth = (if pieceCount > 20 then max 1 (depth - 2)
                   else if pieceCount > 10 then max 1 (depth - 1)
                   else depth);
          ms = moves E game
      in if length ms = 0 then Inr (None, rs3)
         else
           let (ms, rs4) =
                 (if skillLevel < 5
                  then let (xs, r) = shuffle G rs3 ms in (take 5 xs, r)
                  else if skillLevel < 8
                  then let (xs, r) = shuffle G rs3 ms in (take 15 xs, r)
                  else (ms, rs3));
               ms = (if skillLevel \<ge> 5 then sort_by_heuristic game ms else ms)
           in case ms of
                [] \<Rightarrow> Inl TypeError
              | m0 # _ \<Rightarrow>
                  getMove_loop E G this game (nat (depth - 1)) skillLevel ms m0
                    (if turn E game = White then NegInf else PosInf) NegInf PosInf rs4)"

section \<open>hyperbolicAI.ts\<close>

record HyperbolicChessAI =
  modelCheckpoint :: string
  temperature :: real
  riskFactor :: real
  style :: string

definition new_HyperbolicChessAI :: HyperbolicChessAI where
  "new_HyperbolicChessAI =
     \<lparr>modelCheckpoint = ''HuggingFaceTB/SmolLM-360M'', temperature = 1.2,
      riskFactor = 0.7, style = ''hyper-aggressive''\<rparr>"

text \<open>\<open>Math.sign(x) * Math.pow(Math.abs(x), e)\<close>.\<close>

definition signed_pow :: "real \<Rightarrow> real \<Rightarrow> real" where
  "signed_pow x e = sgn x * (\<bar>x\<bar> powr e)"

text \<open>The loop state of the evaluation is the pair \<open>(evaluation, attackBonus)\<close>.\<close>

definition hyperbolic_step ::
  "'p rules \<Rightarrow> HyperbolicChessAI \<Rightarrow> 'p \<Rightarrow> nat \<Rightarrow> nat \<Rightarrow> real \<times> real \<Rightarrow> real \<times> real" where
  "hyperbolic_step E this game r c acc =
     (case cell (board E game) r c of
        None \<Rightarrow> acc
      | Some piece \<Rightarrow>
          let (evaluation, attackBonus) = acc;
              value = PIECE_VALUES (ptype piece);
              sq = square_name r c;
              mobility = countAttacks E game sq;
              value = value + real mobility * 0.05 * temperature this;
              attackedValue =
                fold (\<lambda>m a. case captured m of
                                Some k \<Rightarrow> a + PIECE_VALUES k * 0.1
                              | None \<Rightarrow> a)
                  (moves_from E game sq) 0;
              attackBonus = attackBonus + attackedValue * riskFactor this
          in if pcolor piece = White then (evaluation + value, attackBonus)
             else (evaluation - value, attackBonus))"

definition hyperbolic_evaluateBoard :: "'p rules \<Rightarrow> HyperbolicChessAI \<Rightarrow> 'p \<Rightarrow> real" where
  "hyperbolic_evaluateBoard E this game =
     (let (evaluation, attackBonus) = for_squares (hyperbolic_step E this game) (0, 0);
          evaluation = signed_pow evaluation 1.2
      in evaluation + attackBonus)"

definition applyHyperbolicTransform :: "real \<Rightarrow> real" where
  "applyHyperbolicTransform score = signed_pow score 1.3"

fun hyperbolic_getMove_loop ::
  "'p rules \<Rightarrow> 'r rng \<Rightarrow> HyperbolicChessAI \<Rightarrow> 'p \<Rightarrow> move list \<Rightarrow> move \<Rightarrow> jsnum \<Rightarrow> 'r
     \<Rightarrow> error + (string option \<times> 'r)" where
  "hyperbolic_getMove_loop E G this game [] bestMove bestScore rs =
     Inr (Some (san bestMove), rs)"
| "hyperbolic_getMove_loop E G this game (m # ms) bestMove bestScore rs =
     (case make_move E game (san m) of
        None \<Rightarrow> Inl InvalidMove
      | Some clone \<Rightarrow>
          let score = hyperbolic_evaluateBoard E this clone;
              score = applyHyperbolicTransform score;
              (u, rs') = random G rs;
              score = score + (u - 0.5) * temperature this
          in if (turn E game = White \<and> Num score > bestScore)
                \<or> (turn E game = Black \<and> Num score < bestScore)
             then hyperbolic_getMove_loop E G this game ms m (Num score) rs'
             else hyperbolic_getMove_loop E G this game ms bestMove bestScore rs')"

definition hyperbolic_getMove ::
  "'p rules \<Rightarrow> 'r rng \<Rightarrow> HyperbolicChessAI \<Rightarrow> 'p \<Rightarrow> 'r \<Rightarrow> error + (string option \<times> 'r)" where
  "hyperbolic_getMove E G this game rs =
     (let ms = moves E game
      in if length ms = 0 then Inr (None, rs)
         else
           let complexity = calculatePositionComplexity E game;
               timeFactor = min 1.0 (complexity / 20.0)
           in case ms of
                [] \<Rightarrow> Inl TypeError
              | m0 # _ \<Rightarrow>
                  hyperbolic_getMove_loop E G this game ms m0
                    (if turn E game = White then NegInf else PosInf) rs)"

section \<open>Specification vocabulary\<close>

text \<open>
  The contract of the rules engine that the code relies on: a move that the engine lists
  for a position is accepted by \<open>move\<close> on a copy of that position.
\<close>

definition accepts_listed :: "'p rules \<Rightarrow> bool" where
  "accepts_listed E =
     (\<forall>game. \<forall>m \<in> set (moves E game). make_move E game (san m) \<noteq> None)"

text \<open>Sorting with a random comparator rearranges the array and does nothing else.\<close>

definition rearranges :: "'r rng \<Rightarrow> bool" where
  "rearranges G = (\<forall>rs ms. mset (fst (shuffle G rs ms)) = mset ms)"

text \<open>The invariant of the profile: \<open>adaptiveFactor\<close> is never assigned, and the skill
  estimate stays on the scale.\<close>

definition skill_inv :: "AdaptiveChessAI \<Rightarrow> bool" where
  "skill_inv this =
     (adaptiveFactor this = 0.8
      \<and> 1 \<le> opponentSkillEstimate this \<and> opponentSkillEstimate this \<le> 10)"

text \<open>The squares in the order of the double loop, and the occupied ones with their
  piece.\<close>

definition squares :: "(nat \<times> nat) list" where
  "squares = concat (map (\<lambda>r. map (\<lambda>c. (r, c)) [0..<8]) [0..<8])"

definition occupied :: "piece option list list \<Rightarrow> (nat \<times> nat \<times> piece) list" where
  "occupied b =
     concat (map (\<lambda>(r, c). case cell b r c of None \<Rightarrow> [] | Some pc \<Rightarrow> [(r, c, pc)]) squares)"

definition own_pieces :: "'p rules \<Rightarrow> 'p \<Rightarrow> (nat \<times> nat \<times> piece) list" where
  "own_pieces E game =
     filter (\<lambda>(r, c, pc). pcolor pc = turn E game) (occupied (board E game))"

text \<open>A piece that is not a pawn and stands off the home rank of side \<open>t\<close>
  (row \<open>7\<close> is rank 1, row \<open>0\<close> is rank 8).\<close>

definition is_developed :: "color \<Rightarrow> nat \<times> nat \<times> piece \<Rightarrow> bool" where
  "is_developed t = (\<lambda>(r, c, pc).
     ptype pc \<noteq> Pawn \<and> (if t = White then r < 7 else 0 < r))"

definition developed_count :: "'p rules \<Rightarrow> 'p \<Rightarrow> nat" where
  "developed_count E game = length (filter (is_developed (turn E game)) (own_pieces E game))"

definition pawn_count :: "'p rules \<Rightarrow> 'p \<Rightarrow> nat" where
  "pawn_count E game = length (filter (\<lambda>(r, c, pc). ptype pc = Pawn) (own_pieces E game))"

text \<open>The legal moves of every piece of the side to move, and the two scores of the style
  analysis counted on them.\<close>

definition replies :: "'p rules \<Rightarrow> 'p \<Rightarrow> move list" where
  "replies E game =
     concat (map (\<lambda>(r, c, pc). moves_from E game (square_name r c)) (own_pieces E game))"

definition attack_count :: "'p rules \<Rightarrow> 'p \<Rightarrow> real" where
  "attack_count E game = real (length (filter (\<lambda>m. captured m \<noteq> None) (replies E game)))"

definition defense_weight :: "'p rules \<Rightarrow> 'p \<Rightarrow> real" where
  "defense_weight E game =
     0.1 * real (length (filter (\<lambda>m. captured m = None) (replies E game)))"

text \<open>The material sum of a board, and the colour-mirrored board: ranks reversed, every
  piece recoloured.\<close>

definition signed_value :: "piece \<Rightarrow> real" where
  "signed_value pc =
     (if pcolor pc = White then PIECE_VALUES (ptype pc) else - PIECE_VALUES (ptype pc))"

definition material :: "piece option list list \<Rightarrow> real" where
  "material b =
     sum_list (map (\<lambda>x. case x of None \<Rightarrow> 0 | Some pc \<Rightarrow> signed_value pc) (concat b))"

definition opposite :: "color \<Rightarrow> color" where
  "opposite t = (if t = White then Black else White)"

definition color_mirror :: "piece option list list \<Rightarrow> piece option list list" where
  "color_mirror b =
     rev (map (map (map_option (\<lambda>pc. pc\<lparr>pcolor := opposite (pcolor pc)\<rparr>))) b)"

definition eight_by_eight :: "piece option list list \<Rightarrow> bool" where
  "eight_by_eight b = (length b = 8 \<and> list_all (\<lambda>row. length row = 8) b)"

text \<open>The two sums of the hyperbolic evaluation: material plus mobility, signed by
  colour, and the attack bonus, which carries no sign.\<close>

definition signed_mobility_sum :: "'p rules \<Rightarrow> HyperbolicChessAI \<Rightarrow> 'p \<Rightarrow> real" where
  "signed_mobility_sum E this game =
     sum_list (map (\<lambda>(r, c, pc).
         (if pcolor pc = White then 1 else - 1)
         * (PIECE_VALUES (ptype pc)
            + real (length (moves_from E game (square_name r c))) * 0.05 * temperature this))
       (occupied (board E game)))"

definition attack_bonus :: "'p rules \<Rightarrow> HyperbolicChessAI \<Rightarrow> 'p \<Rightarrow> real" where
  "attack_bonus E this game =
     sum_list (map (\<lambda>(r, c, pc).
         sum_list (map (\<lambda>m. case captured m of
                               None \<Rightarrow> 0
                             | Some k \<Rightarrow> 0.1 * PIECE_VALUES k * riskFactor this)
                     (moves_from E game (square_name r c))))
       (occupied (board E game)))"

section \<open>Example positions\<close>

text \<open>
  A rules engine given by data: a position carries the answers of chess.js for it, its
  legal moves each with the position reached.  A tree is cut below the positions that an
  example reads: a cut position lists no moves.  Positions that are mate list none
  because there are none.
\<close>

datatype position =
  Position (p_board: "piece option list list") (p_turn: color)
    (p_moves: "(move \<times> position) list")
    (p_inCheck: bool) (p_isCheckmate: bool) (p_isGameOver: bool)

definition given_rules :: "position rules" where
  "given_rules =
     \<lparr>board = p_board, turn = p_turn,
      moves = (\<lambda>p. map fst (p_moves p)),
      moves_from = (\<lambda>p sq. filter (\<lambda>m. from_sq m = sq) (map fst (p_moves p))),
      make_move = (\<lambda>p s. map_option snd (find (\<lambda>(m, q). san m = s) (p_moves p))),
      inCheck = p_inCheck, isCheckmate = p_isCheckmate, isGameOver = p_isGameOver\<rparr>"

text \<open>A board from the list of its men, each on its (row, column).\<close>

definition place_men :: "((nat \<times> nat) \<times> color \<times> piece_type) list \<Rightarrow> piece option list list" where
  "place_men men =
     map (\<lambda>r. map (\<lambda>c. map_option (\<lambda>(t, k). \<lparr>ptype = k, pcolor = t\<rparr>) (map_of men (r, c)))
                  [0..<8]) [0..<8]"

definition quiet_move :: "string \<Rightarrow> string \<Rightarrow> string \<Rightarrow> move" where
  "quiet_move s f t = \<lparr>san = s, from_sq = f, to_sq = t, captured = None, promotion = None\<rparr>"

definition promotion_move :: "string \<Rightarrow> string \<Rightarrow> string \<Rightarrow> piece_type \<Rightarrow> move" where
  "promotion_move s f t k =
     \<lparr>san = s, from_sq = f, to_sq = t, captured = None, promotion = Some k\<rparr>"

definition capture_move :: "string \<Rightarrow> string \<Rightarrow> string \<Rightarrow> piece_type \<Rightarrow> move" where
  "capture_move s f t k =
     \<lparr>san = s, from_sq = f, to_sq = t, captured = Some k, promotion = None\<rparr>"

definition cut :: "piece option list list \<Rightarrow> color \<Rightarrow> position" where
  "cut b t = Position b t [] False False False"

definition mate :: "piece option list list \<Rightarrow> color \<Rightarrow> position" where
  "mate b t = Position b t [] True True True"

text \<open>Black to move and mated: black king h4 and knight a1, white queen g4 guarded by
  the white king f3.\<close>

definition mated :: position where
  "mated = mate (place_men [((4, 6), White, Queen), ((4, 7), Black, King),
                        ((5, 5), White, King), ((7, 0), Black, Knight)]) Black"

text \<open>White to move and mated after 1. f3 e5 2. g4 Qh4: all sixteen white men are on
  the board, the eight pawns among them.\<close>

definition fools_mate :: position where
  "fools_mate = mate (place_men
     [((0, 0), Black, Rook), ((0, 1), Black, Knight), ((0, 2), Black, Bishop),
      ((0, 4), Black, King), ((0, 5), Black, Bishop), ((0, 6), Black, Knight),
      ((0, 7), Black, Rook),
      ((1, 0), Black, Pawn), ((1, 1), Black, Pawn), ((1, 2), Black, Pawn),
      ((1, 3), Black, Pawn), ((1, 5), Black, Pawn), ((1, 6), Black, Pawn),
      ((1, 7), Black, Pawn),
      ((3, 4), Black, Pawn),
      ((4, 6), White, Pawn), ((4, 7), Black, Queen),
      ((5, 5), White, Pawn),
      ((6, 0), White, Pawn), ((6, 1), White, Pawn), ((6, 2), White, Pawn),
      ((6, 3), White, Pawn), ((6, 4), White, Pawn), ((6, 7), White, Pawn),
      ((7, 0), White, Rook), ((7, 1), White, Knight), ((7, 2), White, Bishop),
      ((7, 3), White, Queen), ((7, 4), White, King), ((7, 5), White, Bishop),
      ((7, 6), White, Knight), ((7, 7), White, Rook)]) White"

text \<open>King and pawn against king.  \<open>after_Kc6\<close>: white king c6 and pawn h2, black
  king a8, Black to move; its two king moves lead to cut positions.  \<open>before_Kc6\<close>:
  the white king on c5, White to move, with its ten legal moves.\<close>

definition kp_board :: "nat \<times> nat \<Rightarrow> nat \<times> nat \<Rightarrow> nat \<times> nat \<Rightarrow> piece option list list" where
  "kp_board wk wp bk = place_men [(wk, White, King), (wp, White, Pawn), (bk, Black, King)]"

definition after_Kc6 :: position where
  "after_Kc6 = Position (kp_board (2, 2) (6, 7) (0, 0)) Black
     [(quiet_move ''Kb8'' ''a8'' ''b8'', cut (kp_board (2, 2) (6, 7) (0, 1)) White),
      (quiet_move ''Ka7'' ''a8'' ''a7'', cut (kp_board (2, 2) (6, 7) (1, 0)) White)]
     False False False"

definition before_Kc6 :: position where
  "before_Kc6 = Position (kp_board (3, 2) (6, 7) (0, 0)) White
     [(quiet_move ''Kb6'' ''c5'' ''b6'', cut (kp_board (2, 1) (6, 7) (0, 0)) Black),
      (quiet_move ''Kc6'' ''c5'' ''c6'', after_Kc6),
      (quiet_move ''Kd6'' ''c5'' ''d6'', cut (kp_board (2, 3) (6, 7) (0, 0)) Black),
      (quiet_move ''Kd5'' ''c5'' ''d5'', cut (kp_board (3, 3) (6, 7) (0, 0)) Black),
      (quiet_move ''Kd4'' ''c5'' ''d4'', cut (kp_board (4, 3) (6, 7) (0, 0)) Black),
      (quiet_move ''Kc4'' ''c5'' ''c4'', cut (kp_board (4, 2) (6, 7) (0, 0)) Black),
      (quiet_move ''Kb4'' ''c5'' ''b4'', cut (kp_board (4, 1) (6, 7) (0, 0)) Black),
      (quiet_move ''Kb5'' ''c5'' ''b5'', cut (kp_board (3, 1) (6, 7) (0, 0)) Black),
      (quiet_move ''h3'' ''h2'' ''h3'', cut (kp_board (3, 2) (5, 7) (0, 0)) Black),
      (quiet_move ''h4'' ''h2'' ''h4'', cut (kp_board (3, 2) (4, 7) (0, 0)) Black)]
     False False False"

text \<open>Mate in one: white king h6 and pawns g6 and f7, black king h8, White to move.
  The pawn move \<open>g7\<close> and the promotions to queen and rook are mate.\<close>

definition after_g7 :: position where
  "after_g7 = mate (place_men [((0, 7), Black, King), ((1, 5), White, Pawn),
                           ((1, 6), White, Pawn), ((2, 7), White, King)]) Black"

definition promoted :: "piece_type \<Rightarrow> piece option list list" where
  "promoted k = place_men [((0, 7), Black, King), ((0, 5), White, k),
                       ((2, 6), White, Pawn), ((2, 7), White, King)]"

definition before_g7 :: position where
  "before_g7 = Position
     (place_men [((0, 7), Black, King), ((1, 5), White, Pawn),
             ((2, 6), White, Pawn), ((2, 7), White, King)]) White
     [(promotion_move ''f8=Q#'' ''f7'' ''f8'' Queen, mate (promoted Queen) Black),
      (promotion_move ''f8=R#'' ''f7'' ''f8'' Rook, mate (promoted Rook) Black),
      (promotion_move ''f8=B'' ''f7'' ''f8'' Bishop, cut (promoted Bishop) Black),
      (promotion_move ''f8=N'' ''f7'' ''f8'' Knight, cut (promoted Knight) Black),
      (quiet_move ''g7#'' ''g6'' ''g7'', after_g7),
      (quiet_move ''Kh5'' ''h6'' ''h5'',
         cut (place_men [((0, 7), Black, King), ((1, 5), White, Pawn),
                     ((2, 6), White, Pawn), ((3, 7), White, King)]) Black),
      (quiet_move ''Kg5'' ''h6'' ''g5'',
         cut (place_men [((0, 7), Black, King), ((1, 5), White, Pawn),
                     ((2, 6), White, Pawn), ((3, 6), White, King)]) Black)]
     False False False"

text \<open>A random source for the examples: a counter into a fixed cycle of values, and a
  shuffle that reverses.\<close>

definition cycle_rng :: "nat rng" where
  "cycle_rng =
     \<lparr>random = (\<lambda>n. ([0.1, 0.5, 0.9] ! (n mod 3), Suc n)),
      shuffle = (\<lambda>n ms. (rev ms, Suc n))\<rparr>"

text \<open>Moves of a position with a white rook a1 and a white pawn h7: the rook takes a
  rook or a knight on a8, the pawn promotes on h8 or takes a knight on g8 and promotes,
  the rook checks on the first rank, the king steps aside.\<close>

definition rook_capture :: move where
  "rook_capture = capture_move ''Rxa8'' ''a1'' ''a8'' Rook"

definition knight_capture :: move where
  "knight_capture = capture_move ''Rxa8'' ''a1'' ''a8'' Knight"

definition pawn_promotion :: move where
  "pawn_promotion = promotion_move ''h8=Q'' ''h7'' ''h8'' Queen"

definition capturing_promotion :: move where
  "capturing_promotion =
     \<lparr>san = ''hxg8=Q'', from_sq = ''h7'', to_sq = ''g8'', captured = Some Knight,
      promotion = Some Queen\<rparr>"

definition rook_check :: move where
  "rook_check = quiet_move ''Re1+'' ''a1'' ''e1''"

definition king_step :: move where
  "king_step = quiet_move ''Kg2'' ''g1'' ''g2''"

section \<open>The example engine and random source satisfy the contracts\<close>

lemma given_rules_accepts: "accepts_listed given_rules"
proof -
  have "find (\<lambda>(m', q). san m' = san m) ps \<noteq> None" if "m \<in> fst ` set ps"
    for m :: move and ps :: "(move \<times> position) list"
    using that by (auto simp: find_None_iff)
  then show ?thesis
    by (simp add: accepts_listed_def given_rules_def)
qed

lemma cycle_rng_rearranges: "rearranges cycle_rng"
  by (simp add: rearranges_def cycle_rng_def)

section \<open>Loops over the board\<close>

lemma fold_over_concat: "fold f (concat xss) acc = fold (fold f) xss acc"
  by (induction xss arbitrary: acc) simp_all

lemma for_squares_fold:
  "for_squares body acc = fold (\<lambda>(r, c). body r c) squares acc"
  by (simp add: for_squares_def squares_def fold_over_concat fold_map comp_def)

lemma fold_occupied_aux:
  "fold (\<lambda>(r, c) acc. case cell b r c of None \<Rightarrow> acc | Some pc \<Rightarrow> g r c pc acc) sqs acc0
   = fold (\<lambda>(r, c, pc). g r c pc)
       (concat (map (\<lambda>(r, c). case cell b r c of None \<Rightarrow> [] | Some pc \<Rightarrow> [(r, c, pc)]) sqs)) acc0"
  by (induction sqs arbitrary: acc0) (auto split: option.splits)

text \<open>A loop whose body skips the empty squares is a fold over the occupied ones.\<close>

lemma for_squares_occupied:
  assumes "\<And>r c acc. body r c acc = (case cell b r c of None \<Rightarrow> acc | Some pc \<Rightarrow> g r c pc acc)"
  shows "for_squares body acc0 = fold (\<lambda>(r, c, pc). g r c pc) (occupied b) acc0"
proof -
  have "body = (\<lambda>r c acc. case cell b r c of None \<Rightarrow> acc | Some pc \<Rightarrow> g r c pc acc)"
    by (intro ext) (rule assms)
  then show ?thesis
    unfolding for_squares_fold occupied_def by (simp only: fold_occupied_aux)
qed

section \<open>Opponent assessment\<close>

lemma listed_accepted:
  assumes "accepts_listed E" "moveSan \<in> set (moves_san E game)"
  shows "\<exists>clone. make_move E game moveSan = Some clone"
proof -
  from assms(2) obtain m where "m \<in> set (moves E game)" "moveSan = san m"
    by (auto simp: moves_san_def)
  with assms(1) show ?thesis
    unfolding accepts_listed_def by blast
qed

lemma clamp_quality: "(0.1::real) \<le> min 1.0 (max 0.1 q) \<and> min 1.0 (max 0.1 q) \<le> 1"
  by simp

lemma analyzeMoveQuality_legal:
  assumes "moveSan \<in> set (moves_san E game)" "make_move E game moveSan = Some clone"
  shows "\<exists>q. analyzeMoveQuality E game moveSan = Inr q \<and> 0.1 \<le> q \<and> q \<le> 1
           \<and> (isCheckmate E clone \<longrightarrow> q = 1)"
proof (cases "isCheckmate E clone")
  case True
  with assms have "analyzeMoveQuality E game moveSan = Inr 1"
    by (simp add: analyzeMoveQuality_def Let_def)
  then show ?thesis by simp
next
  case False
  with assms obtain x where "analyzeMoveQuality E game moveSan = Inr (min 1.0 (max 0.1 x))"
    by (simp add: analyzeMoveQuality_def Let_def)
  with False clamp_quality[of x] show ?thesis by simp
qed

lemma analyzeMoveQuality_illegal:
  "moveSan \<notin> set (moves_san E game) \<Longrightarrow> analyzeMoveQuality E game moveSan = Inr 0.1"
  by (simp add: analyzeMoveQuality_def)

lemma analyzeMoveQuality_total:
  assumes "accepts_listed E"
  shows "\<exists>q. analyzeMoveQuality E game moveSan = Inr q \<and> 0.1 \<le> q \<and> q \<le> 1"
proof (cases "moveSan \<in> set (moves_san E game)")
  case False
  then have "analyzeMoveQuality E game moveSan = Inr 0.1"
    by (rule analyzeMoveQuality_illegal)
  then show ?thesis by (intro exI[of _ "0.1"]) (simp only: simp_thms, simp)
next
  case True
  from listed_accepted[OF assms True] obtain clone where
    mm: "make_move E game moveSan = Some clone" ..
  from analyzeMoveQuality_legal[OF True mm] obtain q where
    "analyzeMoveQuality E game moveSan = Inr q" "0.1 \<le> q" "q \<le> 1" by blast
  then show ?thesis by (intro exI[of _ q]) simp
qed

lemma analyzeMoveStyle_illegal:
  "moveSan \<notin> set (moves_san E game) \<Longrightarrow> analyzeMoveStyle E game moveSan = Inr 0"
  by (simp add: analyzeMoveStyle_def)

lemma analyzeMoveStyle_total:
  assumes "accepts_listed E"
  shows "\<exists>s. analyzeMoveStyle E game moveSan = Inr s"
proof (cases "moveSan \<in> set (moves_san E game)")
  case False
  then show ?thesis by (simp add: analyzeMoveStyle_illegal)
next
  case True
  from listed_accepted[OF assms True] obtain clone where
    "make_move E game moveSan = Some clone" ..
  with True show ?thesis
    by (simp add: analyzeMoveStyle_def Let_def split: prod.splits)
qed

lemma smoothing_range:
  fixes x y :: real
  assumes "1 \<le> x" "x \<le> 10"
  shows "1 \<le> (1 - 0.8) * x + 0.8 * min 10 (max 1 y)"
    and "(1 - 0.8) * x + 0.8 * min 10 (max 1 y) \<le> 10"
proof -
  have c: "1 \<le> min 10 (max 1 y)" "min 10 (max 1 y) \<le> 10" by simp_all
  have "\<And>c::real. 1 \<le> c \<Longrightarrow> 1 \<le> (1 - 0.8) * x + 0.8 * c" using assms by simp
  with c show "1 \<le> (1 - 0.8) * x + 0.8 * min 10 (max 1 y)" by blast
  have "\<And>c::real. c \<le> 10 \<Longrightarrow> (1 - 0.8) * x + 0.8 * c \<le> 10" using assms by simp
  with c show "(1 - 0.8) * x + 0.8 * min 10 (max 1 y) \<le> 10" by blast
qed

text \<open>What one call does to the profile, given the two scores.\<close>

lemma update_result:
  assumes "analyzeMoveQuality E game moveSan = Inr q" "analyzeMoveStyle E game moveSan = Inr s"
  shows "updateOpponentAssessment E this game moveSan timeTaken =
    Inr (this\<lparr>opponentSkillEstimate :=
                 (1 - adaptiveFactor this) * opponentSkillEstimate this
                 + adaptiveFactor this * min 10 (max 1 (q * (1.0 / (timeTaken + 0.5)) * 10)),
               opponentStyle :=
                 (if s > 0.6 then Aggressive else if s < - 0.6 then Defensive else Balanced),
               history := history this @
                 [\<lparr>entry_skillEstimate =
                      (1 - adaptiveFactor this) * opponentSkillEstimate this
                      + adaptiveFactor this
                        * min 10 (max 1 (q * (1.0 / (timeTaken + 0.5)) * 10)),
                   entry_style =
                     (if s > 0.6 then Aggressive else if s < - 0.6 then Defensive
                      else Balanced),
                   entry_qualityScore = q, entry_styleScore = s\<rparr>]\<rparr>)"
  using assms by (simp add: updateOpponentAssessment_def Let_def)

lemma update_cases:
  assumes "updateOpponentAssessment E this game moveSan timeTaken = Inr this'"
  obtains q s where "analyzeMoveQuality E game moveSan = Inr q"
    "analyzeMoveStyle E game moveSan = Inr s"
  using assms by (auto simp: updateOpponentAssessment_def split: sum.splits)

lemma update_fields:
  assumes "analyzeMoveQuality E game moveSan = Inr q" "analyzeMoveStyle E game moveSan = Inr s"
    and "updateOpponentAssessment E this game moveSan timeTaken = Inr this'"
  shows "opponentSkillEstimate this' =
           (1 - adaptiveFactor this) * opponentSkillEstimate this
           + adaptiveFactor this * min 10 (max 1 (q * (1.0 / (timeTaken + 0.5)) * 10))"
    and "adaptiveFactor this' = adaptiveFactor this"
    and "opponentStyle this' =
           (if s > 0.6 then Aggressive else if s < - 0.6 then Defensive else Balanced)"
    and "length (history this') = Suc (length (history this))"
proof -
  have eq: "Inr this' = updateOpponentAssessment E this game moveSan timeTaken"
    using assms(3) by simp
  show "opponentSkillEstimate this' =
           (1 - adaptiveFactor this) * opponentSkillEstimate this
           + adaptiveFactor this * min 10 (max 1 (q * (1.0 / (timeTaken + 0.5)) * 10))"
    using eq unfolding update_result[OF assms(1,2)] sum.inject by simp
  show "adaptiveFactor this' = adaptiveFactor this"
    using eq unfolding update_result[OF assms(1,2)] sum.inject by simp
  show "opponentStyle this' =
           (if s > 0.6 then Aggressive else if s < - 0.6 then Defensive else Balanced)"
    using eq unfolding update_result[OF assms(1,2)] sum.inject by simp
  show "length (history this') = Suc (length (history this))"
    using eq unfolding update_result[OF assms(1,2)] sum.inject by simp
qed

lemma update_preserves_skill_inv:
  assumes "skill_inv this" "updateOpponentAssessment E this game moveSan timeTaken = Inr this'"
  shows "skill_inv this'"
proof -
  from assms(2) obtain q s where qs: "analyzeMoveQuality E game moveSan = Inr q"
    "analyzeMoveStyle E game moveSan = Inr s" by (rule update_cases)
  from assms(1) have af: "adaptiveFactor this = 0.8" and r: "1 \<le> opponentSkillEstimate this"
    "opponentSkillEstimate this \<le> 10" by (simp_all add: skill_inv_def)
  have sk: "opponentSkillEstimate this' = (1 - 0.8) * opponentSkillEstimate this
                 + 0.8 * min 10 (max 1 (q * (1.0 / (timeTaken + 0.5)) * 10))"
    unfolding update_fields(1)[OF qs assms(2)] af ..
  have af': "adaptiveFactor this' = 0.8"
    unfolding update_fields(2)[OF qs assms(2)] af ..
  from smoothing_range[OF r] show ?thesis
    unfolding skill_inv_def sk af' by blast
qed

lemma update_total:
  assumes "accepts_listed E"
  shows "\<exists>this'. updateOpponentAssessment E this game moveSan timeTaken = Inr this'"
proof -
  from analyzeMoveQuality_total[OF assms] obtain q where
    "analyzeMoveQuality E game moveSan = Inr q" by blast
  moreover from analyzeMoveStyle_total[OF assms] obtain s where
    "analyzeMoveStyle E game moveSan = Inr s" by blast
  ultimately show ?thesis by (simp only: update_result) blast
qed

lemma assessments_skill_inv:
  assumes "accepts_listed E" "skill_inv this"
  shows "\<exists>this'. assessments E this calls = Inr this' \<and> skill_inv this'"
  using assms(2)
proof (induction calls arbitrary: this)
  case Nil
  then show ?case by simp
next
  case (Cons call calls)
  obtain game moveSan timeTaken where call: "call = (game, moveSan, timeTaken)"
    by (cases call) auto
  obtain this1 where u: "updateOpponentAssessment E this game moveSan timeTaken = Inr this1"
    using update_total[OF assms(1)] by blast
  have "skill_inv this1" using update_preserves_skill_inv[OF Cons.prems u] .
  from Cons.IH[OF this] u call show ?case by simp
qed

lemma new_skill_inv: "skill_inv new_AdaptiveChessAI"
  by (simp add: skill_inv_def new_AdaptiveChessAI_def)

text \<open>
  Claim C1.  Starting from a new engine (skill estimate 5), after any sequence of calls
  of \<open>updateOpponentAssessment\<close>, with any positions, any move strings, legal or not,
  and non-negative times, every call returns and the skill estimate lies in \<open>[1, 10]\<close>.
  The rules engine is any engine that accepts the moves it lists.
\<close>

theorem skillEstimate_stays_on_scale:
  assumes "accepts_listed E"
    and "\<forall>(game, moveSan, timeTaken) \<in> set calls. 0 \<le> timeTaken"
  shows "\<exists>this. assessments E new_AdaptiveChessAI calls = Inr this
           \<and> 1 \<le> opponentSkillEstimate this \<and> opponentSkillEstimate this \<le> 10"
proof -
  from assessments_skill_inv[OF assms(1) new_skill_inv, of calls]
  obtain this where "assessments E new_AdaptiveChessAI calls = Inr this" "skill_inv this"
    by blast
  then show ?thesis
    by (intro exI[of _ this]) (simp add: skill_inv_def)
qed

theorem skillEstimate_stays_on_scale_witness:
  "accepts_listed given_rules
   \<and> (\<exists>this. assessments given_rules new_AdaptiveChessAI
                [(before_Kc6, ''Kc6'', 2), (after_Kc6, ''Qh5'', 0)] = Inr this
          \<and> 1 \<le> opponentSkillEstimate this \<and> opponentSkillEstimate this \<le> 10)"
  using skillEstimate_stays_on_scale
    [OF given_rules_accepts, of "[(before_Kc6, ''Kc6'', 2), (after_Kc6, ''Qh5'', 0)]"]
    given_rules_accepts
  by simp


lemma update_style_known:
  assumes "updateOpponentAssessment E this game moveSan timeTaken = Inr this'"
  shows "opponentStyle this' \<noteq> Unknown \<and> length (history this') = Suc (length (history this))"
proof -
  from assms obtain q s where qs: "analyzeMoveQuality E game moveSan = Inr q"
    "analyzeMoveStyle E game moveSan = Inr s" by (rule update_cases)
  from update_fields(3,4)[OF qs assms] show ?thesis by simp
qed

lemma assessments_style_known:
  assumes "assessments E this calls = Inr this'" "opponentStyle this \<noteq> Unknown \<or> calls \<noteq> []"
  shows "opponentStyle this' \<noteq> Unknown"
  using assms
proof (induction calls arbitrary: this)
  case Nil
  then show ?case by simp
next
  case (Cons call calls)
  obtain game moveSan timeTaken where call: "call = (game, moveSan, timeTaken)"
    by (cases call) auto
  from Cons.prems(1) call obtain this1 where
    u: "updateOpponentAssessment E this game moveSan timeTaken = Inr this1"
    and rest: "assessments E this1 calls = Inr this'"
    by (auto split: sum.splits)
  from update_style_known[OF u] have "opponentStyle this1 \<noteq> Unknown" by simp
  with Cons.IH[OF rest] show ?case by simp
qed

text \<open>
  Claim C10.  A call of \<open>updateOpponentAssessment\<close> with a move string that is not in
  the legal move list and a non-negative time still changes the profile: it returns, with
  the skill estimate smoothed towards the clamped adjustment of quality 0.1, a value in
  \<open>[1, 2]\<close>, the style set to balanced, and one entry \<open>(skill, balanced, 0.1, 0)\<close>
  appended to the history.  After any non-empty sequence of calls that return, legal or
  not, the style is not unknown.
\<close>

theorem illegal_move_updates_profile:
  assumes "moveSan \<notin> set (moves_san E game)" and "0 \<le> timeTaken"
  shows "updateOpponentAssessment E this game moveSan timeTaken =
           Inr (this\<lparr>opponentSkillEstimate :=
                        (1 - adaptiveFactor this) * opponentSkillEstimate this
                        + adaptiveFactor this * min 10 (max 1 (0.1 * (1 / (timeTaken + 0.5)) * 10)),
                      opponentStyle := Balanced,
                      history := history this @
                        [\<lparr>entry_skillEstimate =
                            (1 - adaptiveFactor this) * opponentSkillEstimate this
                            + adaptiveFactor this * min 10 (max 1 (0.1 * (1 / (timeTaken + 0.5)) * 10)),
                          entry_style = Balanced, entry_qualityScore = 0.1,
                          entry_styleScore = 0\<rparr>]\<rparr>)
       \<and> 1 \<le> min 10 (max 1 (0.1 * (1 / (timeTaken + 0.5)) * 10))
       \<and> min 10 (max 1 (0.1 * (1 / (timeTaken + 0.5)) * 10)) \<le> 2
       \<and> (\<forall>calls this'. calls \<noteq> [] \<and> assessments E this calls = Inr this'
             \<longrightarrow> opponentStyle this' \<noteq> Unknown)"
proof (intro conjI allI impI)
  show "updateOpponentAssessment E this game moveSan timeTaken =
           Inr (this\<lparr>opponentSkillEstimate :=
                        (1 - adaptiveFactor this) * opponentSkillEstimate this
                        + adaptiveFactor this * min 10 (max 1 (0.1 * (1 / (timeTaken + 0.5)) * 10)),
                      opponentStyle := Balanced,
                      history := history this @
                        [\<lparr>entry_skillEstimate =
                            (1 - adaptiveFactor this) * opponentSkillEstimate this
                            + adaptiveFactor this * min 10 (max 1 (0.1 * (1 / (timeTaken + 0.5)) * 10)),
                          entry_style = Balanced, entry_qualityScore = 0.1,
                          entry_styleScore = 0\<rparr>]\<rparr>)"
    using update_result[OF analyzeMoveQuality_illegal[OF assms(1)]
        analyzeMoveStyle_illegal[OF assms(1)], of this timeTaken]
    by simp
  show "1 \<le> min 10 (max 1 (0.1 * (1 / (timeTaken + 0.5)) * 10))"
    by simp
  have p: "0 < 10 * timeTaken + 5" using assms(2) by simp
  have "10 \<le> 2 * (10 * timeTaken + 5)" using assms(2) by simp
  then have "10 / (10 * timeTaken + 5) \<le> 2"
    using p by (simp only: pos_divide_le_eq)
  then have "0.1 * (1 / (timeTaken + 0.5)) * 10 \<le> 2"
    by simp
  then show "min 10 (max 1 (0.1 * (1 / (timeTaken + 0.5)) * 10)) \<le> 2"
    by simp
  show "opponentStyle this' \<noteq> Unknown" if "calls \<noteq> [] \<and> assessments E this calls = Inr this'"
    for calls this'
    using that assessments_style_known by blast
qed

theorem illegal_move_updates_profile_witness:
  "''Qh5'' \<notin> set (moves_san given_rules before_Kc6) \<and> (0::real) \<le> 2
   \<and> updateOpponentAssessment given_rules new_AdaptiveChessAI before_Kc6 ''Qh5'' 2 =
       Inr (new_AdaptiveChessAI\<lparr>opponentSkillEstimate := 9 / 5,
              opponentStyle := Balanced,
              history := [\<lparr>entry_skillEstimate = 9 / 5, entry_style = Balanced,
                           entry_qualityScore = 0.1, entry_styleScore = 0\<rparr>]\<rparr>)"
proof -
  have h: "''Qh5'' \<notin> set (moves_san given_rules before_Kc6)"
    by code_simp
  have t: "(0::real) \<le> 2"
    by simp
  from illegal_move_updates_profile[OF h t, of new_AdaptiveChessAI] h
  show ?thesis
    by (simp add: new_AdaptiveChessAI_def)
qed

text \<open>
  Claim C8.  For every position and every move string, the move-quality analysis does not
  throw and returns a value in \<open>[0.1, 1.0]\<close>; it returns exactly 0.1 when the string is
  not in the legal move list, and exactly 1.0 when the position reached is checkmate.
  The rules engine is any engine that accepts the moves it lists.
\<close>

theorem analyzeMoveQuality_bounds:
  assumes "accepts_listed E"
  shows "(\<exists>q. analyzeMoveQuality E game moveSan = Inr q \<and> 0.1 \<le> q \<and> q \<le> 1.0)
       \<and> (moveSan \<notin> set (moves_san E game) \<longrightarrow> analyzeMoveQuality E game moveSan = Inr 0.1)
       \<and> (\<forall>clone. moveSan \<in> set (moves_san E game) \<and> make_move E game moveSan = Some clone
              \<and> isCheckmate E clone \<longrightarrow> analyzeMoveQuality E game moveSan = Inr 1.0)"
proof (intro conjI allI impI)
  show "\<exists>q. analyzeMoveQuality E game moveSan = Inr q \<and> 0.1 \<le> q \<and> q \<le> 1.0"
    using analyzeMoveQuality_total[OF assms] by simp
  show "analyzeMoveQuality E game moveSan = Inr 0.1" if "moveSan \<notin> set (moves_san E game)"
    using that by (rule analyzeMoveQuality_illegal)
  show "analyzeMoveQuality E game moveSan = Inr 1.0"
    if "moveSan \<in> set (moves_san E game) \<and> make_move E game moveSan = Some clone \<and> isCheckmate E clone"
    for clone
  proof -
    from that analyzeMoveQuality_legal[of moveSan E game clone] obtain q where
      "analyzeMoveQuality E game moveSan = Inr q" "q = 1" by blast
    then show ?thesis by simp
  qed
qed

theorem analyzeMoveQuality_bounds_witness:
  "accepts_listed given_rules
   \<and> ''Qh5'' \<notin> set (moves_san given_rules before_g7)
   \<and> analyzeMoveQuality given_rules before_g7 ''Qh5'' = Inr 0.1
   \<and> ''g7#'' \<in> set (moves_san given_rules before_g7)
   \<and> make_move given_rules before_g7 ''g7#'' = Some after_g7
   \<and> isCheckmate given_rules after_g7
   \<and> analyzeMoveQuality given_rules before_g7 ''g7#'' = Inr 1.0
   \<and> (\<exists>q. analyzeMoveQuality given_rules before_g7 ''Kh5'' = Inr q \<and> 0.1 \<le> q \<and> q \<le> 1.0)"
proof -
  have a: "''Qh5'' \<notin> set (moves_san given_rules before_g7)"
    by code_simp
  have b: "''g7#'' \<in> set (moves_san given_rules before_g7)
           \<and> make_move given_rules before_g7 ''g7#'' = Some after_g7
           \<and> isCheckmate given_rules after_g7"
    by code_simp
  from analyzeMoveQuality_bounds[OF given_rules_accepts, of before_g7 "''Qh5''"]
    analyzeMoveQuality_bounds[OF given_rules_accepts, of before_g7 "''g7#''"]
    analyzeMoveQuality_bounds[OF given_rules_accepts, of before_g7 "''Kh5''"]
    a b given_rules_accepts
  show ?thesis by blast
qed

section \<open>Skill and depth\<close>

lemma js_round_range:
  assumes "1 \<le> x" "x \<le> 10"
  shows "1 \<le> js_round x \<and> js_round x \<le> 10"
  unfolding js_round_def using assms by (simp add: le_floor_iff floor_le_iff)

lemma depthTable_values:
  assumes "1 \<le> k" "k \<le> 10"
  shows "(case depthTable (min 10 (max 1 k)) of Some d \<Rightarrow> d | None \<Rightarrow> 4)
           = [1, 2, 3, 4, 5, 6, 6, 7, 8, 9] ! nat (k - 1)
       \<and> 1 \<le> (case depthTable (min 10 (max 1 k)) of Some d \<Rightarrow> d | None \<Rightarrow> 4)"
proof -
  from assms have "k = 1 \<or> k = 2 \<or> k = 3 \<or> k = 4 \<or> k = 5 \<or> k = 6 \<or> k = 7 \<or> k = 8
                   \<or> k = 9 \<or> k = 10"
    by arith
  then show ?thesis
    by (elim disjE) (simp_all add: depthTable_def)
qed

lemma getDepthForOpponent_jitter:
  "getDepthForOpponent this u1 u2 =
     max 1 ((case depthTable (min 10 (max 1 (js_round (opponentSkillEstimate this)))) of
               Some d \<Rightarrow> d | None \<Rightarrow> 4)
            + (if u1 < 0.3 then 1 else 0) - (if u2 < 0.3 then 1 else 0))"
  by (simp add: getDepthForOpponent_def Let_def)

text \<open>
  Claim C6.  For every skill estimate in \<open>[1, 10]\<close> and every outcome \<open>u1\<close>,
  \<open>u2\<close> of the two jitter rolls, \<open>getDepthForOpponent\<close> returns an integer that is at
  least 1 and differs by at most 1 from the table value for the rounded skill (the table
  1, 2, 3, 4, 5, 6, 6, 7, 8, 9 for the skills 1 to 10); for the estimate 10 the result is
  8, 9 or 10.
\<close>

theorem getDepthForOpponent_near_table:
  assumes "1 \<le> opponentSkillEstimate this" and "opponentSkillEstimate this \<le> 10"
  shows "1 \<le> getDepthForOpponent this u1 u2
       \<and> \<bar>getDepthForOpponent this u1 u2
            - [1, 2, 3, 4, 5, 6, 6, 7, 8, 9] ! nat (js_round (opponentSkillEstimate this) - 1)\<bar>
          \<le> 1
       \<and> (opponentSkillEstimate this = 10
            \<longrightarrow> getDepthForOpponent this u1 u2 \<in> {8, 9, 10})"
proof -
  let ?k = "js_round (opponentSkillEstimate this)"
  let ?d = "getDepthForOpponent this u1 u2"
  define t where "t = (case depthTable (min 10 (max 1 ?k)) of Some d \<Rightarrow> d | None \<Rightarrow> 4)"
  have k: "1 \<le> ?k \<and> ?k \<le> 10"
    using assms by (rule js_round_range)
  then have tv: "t = [1, 2, 3, 4, 5, 6, 6, 7, 8, 9] ! nat (?k - 1)" and t1: "1 \<le> t"
    unfolding t_def using depthTable_values[of ?k] by blast+
  have d: "?d = max 1 (t + (if u1 < 0.3 then 1 else 0) - (if u2 < 0.3 then 1 else 0))"
    unfolding t_def by (rule getDepthForOpponent_jitter)
  have a: "1 \<le> ?d" using d by simp
  have b: "\<bar>?d - t\<bar> \<le> 1"
    using t1 unfolding d by (simp add: max_def)
  have c: "?d \<in> {8, 9, 10}" if "opponentSkillEstimate this = 10"
  proof -
    have "?k = 10" using that by (simp add: js_round_def)
    then have "t = 9" by (simp add: t_def depthTable_def)
    with b a show ?thesis by (simp only: insert_iff empty_iff) arith
  qed
  from a b c show ?thesis unfolding tv by simp
qed

theorem getDepthForOpponent_near_table_witness:
  "1 \<le> opponentSkillEstimate (new_AdaptiveChessAI\<lparr>opponentSkillEstimate := 10\<rparr>)
   \<and> opponentSkillEstimate (new_AdaptiveChessAI\<lparr>opponentSkillEstimate := 10\<rparr>) \<le> 10
   \<and> 1 \<le> getDepthForOpponent (new_AdaptiveChessAI\<lparr>opponentSkillEstimate := 10\<rparr>) 0.1 0.5
   \<and> getDepthForOpponent (new_AdaptiveChessAI\<lparr>opponentSkillEstimate := 10\<rparr>) 0.1 0.5
       \<in> {8, 9, 10}"
  using getDepthForOpponent_near_table
    [of "new_AdaptiveChessAI\<lparr>opponentSkillEstimate := 10\<rparr>" "0.1" "0.5"]
  by simp

section \<open>Move ordering\<close>

lemma moveHeuristic_cascade:
  "moveHeuristic game m =
     (case captured m of
        Some k \<Rightarrow> 10 + PIECE_VALUES k
      | None \<Rightarrow> if promotion m \<noteq> None then 15
                else if CHR ''+'' \<in> set (san m) then 5 else 0)"
  by (simp add: moveHeuristic_def js_or_def split: option.splits)

lemma PIECE_VALUES_nonneg: "0 \<le> PIECE_VALUES k"
  by (cases k) simp_all

lemma sorted_desc:
  "sorted (map (\<lambda>m. - moveHeuristic game m) (sort_by_heuristic game ms))"
  unfolding sort_by_heuristic_def by (rule sorted_sort_key)

lemma higher_score_first:
  assumes "i < length (sort_by_heuristic game ms)" "j < length (sort_by_heuristic game ms)"
    and "moveHeuristic game (sort_by_heuristic game ms ! j) < moveHeuristic game (sort_by_heuristic game ms ! i)"
  shows "i < j"
proof (rule ccontr)
  assume "\<not> i < j"
  then have "j \<le> i" by simp
  with sorted_desc[of game ms] assms(1)
  have "map (\<lambda>m. - moveHeuristic game m) (sort_by_heuristic game ms) ! j
        \<le> map (\<lambda>m. - moveHeuristic game m) (sort_by_heuristic game ms) ! i"
    by (simp only: sorted_iff_nth_mono length_map)
  with assms show False by simp
qed

text \<open>
  Claim C3, amended.  \<open>moveHeuristic\<close> returns 10 plus the value of the captured piece
  for a capture (also one that promotes or checks), otherwise 15 for a promotion,
  otherwise 5 for a move whose SAN contains \<open>+\<close>, and 0 for a quiet move, one that
  neither captures nor promotes and whose SAN has neither \<open>+\<close> nor \<open>#\<close>.  The list
  sorted descending by it is a rearrangement of the given list in which every promotion
  that does not capture stands before every capture of a piece of value below 5, and
  every move whose SAN contains \<open>+\<close> stands before every quiet move.
\<close>

theorem moveHeuristic_order:
  fixes game :: 'p and ms :: "move list"
  defines "S \<equiv> sort_by_heuristic game ms"
  shows "(\<forall>k. captured m = Some k \<longrightarrow> moveHeuristic game m = 10 + PIECE_VALUES k)
       \<and> (captured m = None \<and> promotion m \<noteq> None \<longrightarrow> moveHeuristic game m = 15)
       \<and> (captured m = None \<and> promotion m = None \<and> CHR ''+'' \<in> set (san m)
            \<longrightarrow> moveHeuristic game m = 5)
       \<and> (captured m = None \<and> promotion m = None \<and> CHR ''+'' \<notin> set (san m)
            \<and> CHR ''#'' \<notin> set (san m) \<longrightarrow> moveHeuristic game m = 0)
       \<and> mset S = mset ms
       \<and> (\<forall>i j. i < length S \<and> j < length S
              \<and> captured (S ! i) = None \<and> promotion (S ! i) \<noteq> None
              \<and> (\<exists>k. captured (S ! j) = Some k \<and> PIECE_VALUES k < 5)
              \<longrightarrow> i < j)
       \<and> (\<forall>i j. i < length S \<and> j < length S
              \<and> CHR ''+'' \<in> set (san (S ! i))
              \<and> captured (S ! j) = None \<and> promotion (S ! j) = None
              \<and> CHR ''+'' \<notin> set (san (S ! j)) \<and> CHR ''#'' \<notin> set (san (S ! j))
              \<longrightarrow> i < j)"
proof (intro conjI allI impI)
  show "moveHeuristic game m = 10 + PIECE_VALUES k" if "captured m = Some k" for k
    using that by (simp add: moveHeuristic_cascade)
  show "moveHeuristic game m = 15" if "captured m = None \<and> promotion m \<noteq> None"
    using that by (simp add: moveHeuristic_cascade)
  show "moveHeuristic game m = 5"
    if "captured m = None \<and> promotion m = None \<and> CHR ''+'' \<in> set (san m)"
    using that by (simp add: moveHeuristic_cascade)
  show "moveHeuristic game m = 0"
    if "captured m = None \<and> promotion m = None \<and> CHR ''+'' \<notin> set (san m)
        \<and> CHR ''#'' \<notin> set (san m)"
    using that by (simp add: moveHeuristic_cascade)
  show "mset S = mset ms"
    by (simp add: S_def sort_by_heuristic_def)
next
  fix i j
  assume a: "i < length S \<and> j < length S
              \<and> captured (S ! i) = None \<and> promotion (S ! i) \<noteq> None
              \<and> (\<exists>k. captured (S ! j) = Some k \<and> PIECE_VALUES k < 5)"
  then have "moveHeuristic game (S ! i) = 15"
    by (simp add: moveHeuristic_cascade)
  moreover from a have "moveHeuristic game (S ! j) < 15"
    by (auto simp: moveHeuristic_cascade)
  ultimately show "i < j"
    using a higher_score_first[of i game ms j] by (simp add: S_def)
next
  fix i j
  assume a: "i < length S \<and> j < length S
              \<and> CHR ''+'' \<in> set (san (S ! i))
              \<and> captured (S ! j) = None \<and> promotion (S ! j) = None
              \<and> CHR ''+'' \<notin> set (san (S ! j)) \<and> CHR ''#'' \<notin> set (san (S ! j))"
  then have "moveHeuristic game (S ! j) = 0"
    by (simp add: moveHeuristic_cascade)
  moreover from a have "0 < moveHeuristic game (S ! i)"
    using PIECE_VALUES_nonneg[of "the (captured (S ! i))"]
    by (cases "captured (S ! i)") (simp_all add: moveHeuristic_cascade)
  ultimately show "i < j"
    using a higher_score_first[of i game ms j] by (simp add: S_def)
qed

theorem moveHeuristic_order_witness:
  "moveHeuristic () pawn_promotion = 15 \<and> moveHeuristic () knight_capture = 10 + 3
   \<and> moveHeuristic () rook_check = 5 \<and> moveHeuristic () king_step = 0
   \<and> sort_by_heuristic () [king_step, rook_check, knight_capture, pawn_promotion]
       = [pawn_promotion, knight_capture, rook_check, king_step]
   \<and> captured pawn_promotion = None \<and> promotion pawn_promotion = Some Queen
   \<and> captured knight_capture = Some Knight \<and> PIECE_VALUES Knight < 5
   \<and> CHR ''+'' \<in> set (san rook_check)
   \<and> captured king_step = None \<and> promotion king_step = None
   \<and> CHR ''+'' \<notin> set (san king_step) \<and> CHR ''#'' \<notin> set (san king_step)"
  using moveHeuristic_order
    [of pawn_promotion "()" "[king_step, rook_check, knight_capture, pawn_promotion]"]
  by (simp add: sort_by_heuristic_def moveHeuristic_def js_or_def king_step_def
      rook_check_def knight_capture_def pawn_promotion_def quiet_move_def capture_move_def
      promotion_move_def)

text \<open>
  Claim C3 as stated fails where the scores are equal: a rook capture listed before a
  promotion stays before it, both scoring 15.  A promotion that captures is scored as a
  capture: 13 when it takes a knight.
\<close>

theorem rook_capture_before_promotion:
  "sort_by_heuristic () [rook_capture, pawn_promotion] = [rook_capture, pawn_promotion]
   \<and> promotion pawn_promotion = Some Queen \<and> captured rook_capture = Some Rook
   \<and> PIECE_VALUES Rook \<le> 5
   \<and> moveHeuristic () pawn_promotion = 15 \<and> moveHeuristic () rook_capture = 15
   \<and> promotion capturing_promotion = Some Queen
   \<and> moveHeuristic () capturing_promotion = 13"
  by (simp add: sort_by_heuristic_def moveHeuristic_def js_or_def rook_capture_def
      pawn_promotion_def capturing_promotion_def capture_move_def promotion_move_def)

section \<open>Piece development\<close>

lemma development_step_own:
  "development_step b t r c acc =
     (case cell b r c of
        None \<Rightarrow> acc
      | Some pc \<Rightarrow>
          (if pcolor pc = t
           then (if is_developed t (r, c, pc) then fst acc + 1 else fst acc, snd acc + 1)
           else acc))"
  by (cases t; cases acc)
    (auto simp: development_step_def is_developed_def Let_def split: option.splits)

lemma fold_development:
  "fold (\<lambda>(r, c, pc) acc.
          if pcolor pc = t
          then (if is_developed t (r, c, pc) then fst acc + 1 else fst acc, snd acc + 1)
          else acc) occ (d, n) =
     (d + int (length (filter (is_developed t) (filter (\<lambda>(r, c, pc). pcolor pc = t) occ))),
      n + int (length (filter (\<lambda>(r, c, pc). pcolor pc = t) occ)))"
proof (induction occ arbitrary: d n)
  case Nil
  then show ?case by simp
next
  case (Cons x occ)
  obtain r c pc where x: "x = (r, c, pc)" by (cases x) auto
  show ?case
    by (simp add: x Cons.IH)
qed

lemma development_loop:
  "for_squares (development_step (board E game) (turn E game)) (0, 0) =
     (int (developed_count E game), int (length (own_pieces E game)))"
  unfolding for_squares_occupied[of "development_step (board E game) (turn E game)", OF development_step_own]
    fold_development
  by (simp add: developed_count_def own_pieces_def)

lemma assessPieceDevelopment_formula:
  "assessPieceDevelopment E game =
     real (developed_count E game) / real_of_int (max 1 (int (length (own_pieces E game)) - 8))"
  by (simp add: assessPieceDevelopment_def development_loop)

lemma developed_plus_pawns:
  "developed_count E game + pawn_count E game \<le> length (own_pieces E game)"
proof -
  have "length (filter P xs) + length (filter Q xs) \<le> length xs" if "\<And>x. P x \<Longrightarrow> \<not> Q x"
    for P Q :: "nat \<times> nat \<times> piece \<Rightarrow> bool" and xs
    using that by (induction xs) auto
  from this[of "is_developed (turn E game)" "\<lambda>(r, c, pc). ptype pc = Pawn" "own_pieces E game"]
  show ?thesis
    by (auto simp: developed_count_def pawn_count_def is_developed_def)
qed

text \<open>
  Claim C4, amended.  \<open>assessPieceDevelopment\<close> returns the number of non-pawn pieces
  of the side to move that stand off their home rank, divided by the number of all its
  pieces minus 8, the divisor being at least 1.  The value is never negative, and it is
  at most 1 when the side to move has eight pawns or more.
\<close>

theorem assessPieceDevelopment_fraction:
  "assessPieceDevelopment E game =
     real (developed_count E game) / real_of_int (max 1 (int (length (own_pieces E game)) - 8))
   \<and> 0 \<le> assessPieceDevelopment E game
   \<and> (8 \<le> pawn_count E game \<longrightarrow> assessPieceDevelopment E game \<le> 1)"
proof (intro conjI impI)
  let ?d = "developed_count E game" and ?n = "length (own_pieces E game)"
  show f: "assessPieceDevelopment E game = real ?d / real_of_int (max 1 (int ?n - 8))"
    by (rule assessPieceDevelopment_formula)
  show "0 \<le> assessPieceDevelopment E game"
    unfolding f by simp
  assume p: "8 \<le> pawn_count E game"
  with developed_plus_pawns[of E game] have "int ?d \<le> int ?n - 8" by linarith
  then have "real ?d \<le> real_of_int (max 1 (int ?n - 8))" by simp
  moreover have "0 < real_of_int (max 1 (int ?n - 8))" by simp
  ultimately show "assessPieceDevelopment E game \<le> 1"
    unfolding f by (simp only: divide_le_eq_1_pos)
qed

theorem assessPieceDevelopment_fraction_witness:
  "8 \<le> pawn_count given_rules fools_mate
   \<and> assessPieceDevelopment given_rules fools_mate =
       real (developed_count given_rules fools_mate)
       / real_of_int (max 1 (int (length (own_pieces given_rules fools_mate)) - 8))
   \<and> 0 \<le> assessPieceDevelopment given_rules fools_mate
   \<and> assessPieceDevelopment given_rules fools_mate \<le> 1"
proof -
  have h: "8 \<le> pawn_count given_rules fools_mate"
    by code_simp
  from assessPieceDevelopment_fraction[of given_rules fools_mate] h
  show ?thesis by blast
qed

text \<open>
  Claim C4 as stated fails for a side with fewer than eight pawns: the mated side of
  \<open>mated\<close> has a king and a knight, both off the home rank, and the value is 2.
\<close>

theorem mated_side_development:
  "assessPieceDevelopment given_rules mated = 2
   \<and> \<not> assessPieceDevelopment given_rules mated \<le> 1"
  by code_simp

section \<open>Style analysis\<close>

lemma style_step_own:
  "style_step E clone r c acc =
     (case cell (board E clone) r c of
        None \<Rightarrow> acc
      | Some pc \<Rightarrow>
          (if pcolor pc = turn E clone
           then (fst acc + real (length (filter (\<lambda>m. captured m \<noteq> None)
                                      (moves_from E clone (square_name r c)))),
                 snd acc + real (length (filter (\<lambda>m. captured m = None)
                                      (moves_from E clone (square_name r c)))) * 0.1)
           else acc))"
proof -
  have cnt: "fold (\<lambda>m a. if P m then a + 1 else a) ms a0 = a0 + real (length (filter P ms))"
    for ms :: "move list" and a0 :: real and P
    by (induction ms arbitrary: a0) simp_all
  show ?thesis
    by (cases acc) (simp add: style_step_def cnt Let_def split: option.splits)
qed

lemma fold_style:
  "fold (\<lambda>(r, c, pc) acc.
          if pcolor pc = t
          then (fst acc + real (length (filter (\<lambda>m. captured m \<noteq> None) (mv r c))),
                snd acc + real (length (filter (\<lambda>m. captured m = None) (mv r c))) * 0.1)
          else acc) occ (a, d) =
     (a + real (length (filter (\<lambda>m. captured m \<noteq> None)
            (concat (map (\<lambda>(r, c, pc). mv r c) (filter (\<lambda>(r, c, pc). pcolor pc = t) occ))))),
      d + 0.1 * real (length (filter (\<lambda>m. captured m = None)
            (concat (map (\<lambda>(r, c, pc). mv r c) (filter (\<lambda>(r, c, pc). pcolor pc = t) occ))))))"
proof (induction occ arbitrary: a d)
  case Nil
  then show ?case by simp
next
  case (Cons x occ)
  obtain r c pc where x: "x = (r, c, pc)" by (cases x) auto
  show ?case
    by (simp add: x Cons.IH algebra_simps)
qed

lemma style_loop:
  "for_squares (style_step E clone) (0, 0) = (attack_count E clone, defense_weight E clone)"
  unfolding for_squares_occupied[of "style_step E clone", OF style_step_own]
    fold_style[of "turn E clone" "\<lambda>r c. moves_from E clone (square_name r c)"]
  by (simp add: attack_count_def defense_weight_def replies_def own_pieces_def)

lemma ratio_range:
  fixes a d :: real
  assumes "0 \<le> a" "0 \<le> d"
  shows "- 1 \<le> (a - d) / max 1 (a + d)" "(a - d) / max 1 (a + d) \<le> 1"
proof -
  have p: "0 < max 1 (a + d)" by simp
  have "a - d \<le> max 1 (a + d)" using assms by simp
  then show "(a - d) / max 1 (a + d) \<le> 1"
    using p by (simp only: divide_le_eq_1_pos)
  have "- max 1 (a + d) \<le> a - d" using assms by simp
  then have "- 1 * max 1 (a + d) \<le> a - d" by simp
  then show "- 1 \<le> (a - d) / max 1 (a + d)"
    using p by (simp only: pos_le_divide_eq)
qed

text \<open>
  Claim C5, amended.  For every position and legal move, the style score lies in
  \<open>[-1, 1]\<close> and equals (attack - defense) / max(1, attack + defense), or 0 if both are
  zero, where attack counts the capturing legal moves and defense is 0.1 times the number
  of non-capturing legal moves of every piece of the side to move in the position
  reached, the side that replies.
\<close>

theorem analyzeMoveStyle_ratio:
  assumes "moveSan \<in> set (moves_san E game)" and "make_move E game moveSan = Some clone"
  shows "analyzeMoveStyle E game moveSan =
           Inr (if attack_count E clone + defense_weight E clone = 0 then 0
                else (attack_count E clone - defense_weight E clone)
                     / max 1 (attack_count E clone + defense_weight E clone))
       \<and> - 1 \<le> (if attack_count E clone + defense_weight E clone = 0 then 0
                else (attack_count E clone - defense_weight E clone)
                     / max 1 (attack_count E clone + defense_weight E clone))
       \<and> (if attack_count E clone + defense_weight E clone = 0 then 0
                else (attack_count E clone - defense_weight E clone)
                     / max 1 (attack_count E clone + defense_weight E clone)) \<le> 1"
proof (intro conjI)
  show "analyzeMoveStyle E game moveSan =
           Inr (if attack_count E clone + defense_weight E clone = 0 then 0
                else (attack_count E clone - defense_weight E clone)
                     / max 1 (attack_count E clone + defense_weight E clone))"
    using assms by (simp add: analyzeMoveStyle_def style_loop)
  have nn: "0 \<le> attack_count E clone" "0 \<le> defense_weight E clone"
    by (simp_all add: attack_count_def defense_weight_def)
  show "- 1 \<le> (if attack_count E clone + defense_weight E clone = 0 then 0
                else (attack_count E clone - defense_weight E clone)
                     / max 1 (attack_count E clone + defense_weight E clone))"
    using ratio_range(1)[OF nn] by simp
  show "(if attack_count E clone + defense_weight E clone = 0 then 0
                else (attack_count E clone - defense_weight E clone)
                     / max 1 (attack_count E clone + defense_weight E clone)) \<le> 1"
    using ratio_range(2)[OF nn] by simp
qed

theorem analyzeMoveStyle_ratio_witness:
  "''Kc6'' \<in> set (moves_san given_rules before_Kc6)
   \<and> make_move given_rules before_Kc6 ''Kc6'' = Some after_Kc6
   \<and> analyzeMoveStyle given_rules before_Kc6 ''Kc6'' =
       Inr (if attack_count given_rules after_Kc6 + defense_weight given_rules after_Kc6 = 0
            then 0
            else (attack_count given_rules after_Kc6 - defense_weight given_rules after_Kc6)
                 / max 1 (attack_count given_rules after_Kc6
                          + defense_weight given_rules after_Kc6))"
proof -
  have a: "''Kc6'' \<in> set (moves_san given_rules before_Kc6)"
    by code_simp
  have b: "make_move given_rules before_Kc6 ''Kc6'' = Some after_Kc6"
    by code_simp
  from analyzeMoveStyle_ratio[OF a b] a b show ?thesis by blast
qed

text \<open>
  Claim C5 as stated fails where attack + defense is below 1.  After \<open>Kc6\<close> the black
  king has two legal moves and no capture: attack is 0, defense is 0.2, the quotient of
  the claim is -1 and the code returns -0.2.  The men of the side that just moved, on c6
  and h2, have no legal move in the position reached.
\<close>

theorem two_quiet_replies:
  "make_move given_rules before_Kc6 ''Kc6'' = Some after_Kc6
   \<and> attack_count given_rules after_Kc6 = 0
   \<and> defense_weight given_rules after_Kc6 = 1 / 5
   \<and> analyzeMoveStyle given_rules before_Kc6 ''Kc6'' = Inr (- 1 / 5)
   \<and> (attack_count given_rules after_Kc6 - defense_weight given_rules after_Kc6)
       / (attack_count given_rules after_Kc6 + defense_weight given_rules after_Kc6) = - 1
   \<and> moves_from given_rules after_Kc6 ''c6'' = []
   \<and> moves_from given_rules after_Kc6 ''h2'' = []"
  by code_simp

section \<open>Board evaluation of the adaptive engine\<close>

lemma material_step_shape:
  "material_step b r c acc =
     (case cell b r c of None \<Rightarrow> acc | Some pc \<Rightarrow> acc + signed_value pc)"
  by (simp add: material_step_def signed_value_def split: option.splits)

lemma fold_add_sum:
  "fold (\<lambda>x acc. acc + f x) xs (a::real) = a + sum_list (map f xs)"
  by (induction xs arbitrary: a) simp_all

lemma material_loop:
  "for_squares (material_step b) 0 = sum_list (map (\<lambda>(r, c, pc). signed_value pc) (occupied b))"
proof -
  have "for_squares (material_step b) 0
        = fold (\<lambda>(r, c, pc) acc. acc + signed_value pc) (occupied b) 0"
    by (rule for_squares_occupied) (rule material_step_shape)
  also have "\<dots> = fold (\<lambda>x acc. acc + (case x of (r, c, pc) \<Rightarrow> signed_value pc)) (occupied b) 0"
    by (simp add: case_prod_unfold)
  also have "\<dots> = sum_list (map (\<lambda>(r, c, pc). signed_value pc) (occupied b))"
    by (simp add: fold_add_sum)
  finally show ?thesis .
qed

lemma occupied_sum:
  "sum_list (map (\<lambda>(r, c, pc). signed_value pc) (occupied b))
   = sum_list (map (\<lambda>(r, c). case cell b r c of None \<Rightarrow> 0 | Some pc \<Rightarrow> signed_value pc) squares)"
proof -
  have "sum_list (map (\<lambda>(r, c, pc). signed_value pc)
          (concat (map (\<lambda>(r, c). case cell b r c of None \<Rightarrow> [] | Some pc \<Rightarrow> [(r, c, pc)]) sqs)))
        = sum_list (map (\<lambda>(r, c). case cell b r c of None \<Rightarrow> 0 | Some pc \<Rightarrow> signed_value pc) sqs)"
    for sqs
    by (induction sqs) (auto split: option.splits)
  then show ?thesis by (simp add: occupied_def)
qed

lemma concat_cells:
  assumes "eight_by_eight b"
  shows "map (\<lambda>(r, c). cell b r c) squares = concat b"
proof -
  from assms have len: "length b = 8" and rows: "\<And>r. r < 8 \<Longrightarrow> length (b ! r) = 8"
    by (simp_all add: eight_by_eight_def list_all_length)
  have row: "map (\<lambda>c. b ! r ! c) [0..<8] = b ! r" if "r < 8" for r
    using map_nth[of "b ! r"] rows[OF that] by simp
  have "map (\<lambda>(r, c). cell b r c) squares
        = concat (map (\<lambda>r. map (\<lambda>c. b ! r ! c) [0..<8]) [0..<8])"
    by (simp add: squares_def map_concat comp_def cell_def)
  also have "map (\<lambda>r. map (\<lambda>c. b ! r ! c) [0..<8]) [0..<8] = map (\<lambda>r. b ! r) [0..<8]"
    by (rule map_cong) (simp_all add: row)
  also have "map (\<lambda>r. b ! r) [0..<8] = b"
    using map_nth[of b] len by simp
  finally show ?thesis .
qed

lemma material_eq_loop:
  assumes "eight_by_eight b"
  shows "for_squares (material_step b) 0 = material b"
proof -
  have "material b
        = sum_list (map (\<lambda>x. case x of None \<Rightarrow> 0 | Some pc \<Rightarrow> signed_value pc)
            (map (\<lambda>(r, c). cell b r c) squares))"
    by (simp only: material_def concat_cells[OF assms])
  also have "\<dots> = sum_list (map (\<lambda>(r, c). case cell b r c of None \<Rightarrow> 0 | Some pc \<Rightarrow> signed_value pc) squares)"
    by (simp add: comp_def case_prod_unfold)
  finally show ?thesis
    by (simp only: material_loop occupied_sum)
qed

lemma signed_value_recolour:
  "signed_value (pc\<lparr>pcolor := opposite (pcolor pc)\<rparr>) = - signed_value pc"
  by (simp add: signed_value_def opposite_def)

lemma sum_concat_rev:
  fixes f :: "'a \<Rightarrow> real"
  shows "sum_list (map f (concat (rev xss))) = sum_list (map f (concat xss))"
  by (induction xss) simp_all

lemma sum_list_negated:
  fixes f :: "'a \<Rightarrow> real"
  shows "sum_list (map (\<lambda>x. - f x) xs) = - sum_list (map f xs)"
  by (induction xs) simp_all

lemma material_mirror: "material (color_mirror b) = - material b"
proof -
  let ?v = "\<lambda>x. case x of None \<Rightarrow> 0 | Some pc \<Rightarrow> signed_value pc"
  let ?f = "map_option (\<lambda>pc. pc\<lparr>pcolor := opposite (pcolor pc)\<rparr>)"
  have v: "?v (?f x) = - ?v x" for x
    by (cases x) (simp_all add: signed_value_recolour)
  have "material (color_mirror b) = sum_list (map ?v (concat (map (map ?f) b)))"
    unfolding material_def color_mirror_def by (rule sum_concat_rev)
  also have "\<dots> = sum_list (map (\<lambda>x. - ?v x) (concat b))"
    by (simp only: map_concat[symmetric] map_map comp_def v)
  also have "\<dots> = - material b"
    unfolding material_def by (rule sum_list_negated)
  finally show ?thesis .
qed

lemma mirror_eight_by_eight: "eight_by_eight b \<Longrightarrow> eight_by_eight (color_mirror b)"
  by (simp add: eight_by_eight_def color_mirror_def list_all_iff)

lemma evaluateBoard_neutral:
  assumes "opponentStyle this = Unknown \<or> opponentStyle this = Balanced"
  shows "evaluateBoard E this game = for_squares (material_step (board E game)) 0"
  using assms by (auto simp: evaluateBoard_def Let_def)

text \<open>
  Claim C7.  With the opponent style unknown, \<open>evaluateBoard\<close> draws no random number
  (its embedding takes no random source) and equals the material sum of the board, with
  pawn 1, knight 3, bishop 3, rook 5, queen 9, king 0, white counted positive and black
  negative; so a position whose board is the colour mirror of another's has the negated
  score.  The board is the 8 by 8 grid of chess.js.
\<close>

theorem evaluateBoard_material_antisymmetric:
  assumes "opponentStyle this = Unknown" and "eight_by_eight (board E game)"
  shows "evaluateBoard E this game = material (board E game)
       \<and> map PIECE_VALUES [Pawn, Knight, Bishop, Rook, Queen, King] = [1, 3, 3, 5, 9, 0]
       \<and> (\<forall>game'. board E game' = color_mirror (board E game)
             \<longrightarrow> evaluateBoard E this game' = - evaluateBoard E this game)"
proof (intro conjI allI impI)
  have n: "opponentStyle this = Unknown \<or> opponentStyle this = Balanced"
    using assms(1) by simp
  show e: "evaluateBoard E this game = material (board E game)"
    by (simp only: evaluateBoard_neutral[OF n] material_eq_loop[OF assms(2)])
  show "map PIECE_VALUES [Pawn, Knight, Bishop, Rook, Queen, King] = [1, 3, 3, 5, 9, 0]"
    by simp
  fix game'
  assume m: "board E game' = color_mirror (board E game)"
  then have "eight_by_eight (board E game')"
    using mirror_eight_by_eight[OF assms(2)] by simp
  then have "evaluateBoard E this game' = material (board E game')"
    by (simp only: evaluateBoard_neutral[OF n] material_eq_loop)
  then show "evaluateBoard E this game' = - evaluateBoard E this game"
    by (simp only: e m material_mirror)
qed

theorem evaluateBoard_material_antisymmetric_witness:
  "opponentStyle new_AdaptiveChessAI = Unknown
   \<and> eight_by_eight (board given_rules before_Kc6)
   \<and> evaluateBoard given_rules new_AdaptiveChessAI before_Kc6
       = material (board given_rules before_Kc6)
   \<and> board given_rules (cut (color_mirror (board given_rules before_Kc6)) Black)
       = color_mirror (board given_rules before_Kc6)
   \<and> evaluateBoard given_rules new_AdaptiveChessAI
         (cut (color_mirror (board given_rules before_Kc6)) Black)
       = - evaluateBoard given_rules new_AdaptiveChessAI before_Kc6"
proof -
  have a: "opponentStyle new_AdaptiveChessAI = Unknown"
    by (simp add: new_AdaptiveChessAI_def)
  have b: "eight_by_eight (board given_rules before_Kc6)"
    by code_simp
  have c: "board given_rules (cut (color_mirror (board given_rules before_Kc6)) Black)
           = color_mirror (board given_rules before_Kc6)"
    by (simp add: given_rules_def cut_def)
  from evaluateBoard_material_antisymmetric[OF a b] a b c show ?thesis by blast
qed

section \<open>Board evaluation of the hyperbolic engine\<close>

lemma hyperbolic_step_shape:
  "hyperbolic_step E this game r c acc =
     (case cell (board E game) r c of
        None \<Rightarrow> acc
      | Some pc \<Rightarrow>
          (fst acc + (if pcolor pc = White then 1 else - 1)
                     * (PIECE_VALUES (ptype pc)
                        + real (length (moves_from E game (square_name r c))) * 0.05
                          * temperature this),
           snd acc + sum_list (map (\<lambda>m. case captured m of
                                             None \<Rightarrow> 0
                                           | Some k \<Rightarrow> 0.1 * PIECE_VALUES k * riskFactor this)
                                (moves_from E game (square_name r c)))))"
proof -
  have att: "fold (\<lambda>m a. case captured m of Some k \<Rightarrow> a + PIECE_VALUES k * 0.1 | None \<Rightarrow> a) ms a0
               * riskFactor this
             = a0 * riskFactor this
               + sum_list (map (\<lambda>m. case captured m of
                                       None \<Rightarrow> 0
                                     | Some k \<Rightarrow> 0.1 * PIECE_VALUES k * riskFactor this) ms)"
    for ms :: "move list" and a0 :: real
    by (induction ms arbitrary: a0) (auto simp: algebra_simps split: option.splits)
  show ?thesis
    by (cases acc)
      (simp add: hyperbolic_step_def Let_def countAttacks_def att[of _ 0, simplified]
        split: option.splits)
qed

lemma fold_pair_sums:
  "fold (\<lambda>x acc. (fst acc + f x, snd acc + g x)) xs (a, d)
   = (a + sum_list (map f xs), d + sum_list (map g xs))"
  for a d :: real
  by (induction xs arbitrary: a d) simp_all

lemma hyperbolic_loop:
  "for_squares (hyperbolic_step E this game) (0, 0)
   = (signed_mobility_sum E this game, attack_bonus E this game)"
proof -
  let ?f = "\<lambda>x. case x of (r, c, pc) \<Rightarrow> (if pcolor pc = White then 1 else - 1)
                     * (PIECE_VALUES (ptype pc)
                        + real (length (moves_from E game (square_name r c))) * 0.05
                          * temperature this)"
  let ?g = "\<lambda>x. case x of (r, c, pc) \<Rightarrow> sum_list (map (\<lambda>m. case captured m of
                                             None \<Rightarrow> 0
                                           | Some k \<Rightarrow> 0.1 * PIECE_VALUES k * riskFactor this)
                                (moves_from E game (square_name r c)))"
  have "for_squares (hyperbolic_step E this game) (0, 0)
        = fold (\<lambda>x acc. (fst acc + ?f x, snd acc + ?g x)) (occupied (board E game)) (0, 0)"
    unfolding for_squares_occupied[of "hyperbolic_step E this game", OF hyperbolic_step_shape]
    by (simp add: case_prod_unfold)
  also have "\<dots> = (0 + sum_list (map ?f (occupied (board E game))),
                   0 + sum_list (map ?g (occupied (board E game))))"
    by (rule fold_pair_sums)
  finally show ?thesis
    by (simp add: signed_mobility_sum_def attack_bonus_def)
qed

text \<open>
  Claim C9.  The evaluation of the hyperbolic engine is \<open>sign(x) * |x|^1.2\<close> of the sum
  \<open>x\<close> of material plus mobility signed by colour, plus the attack bonus: 0.1 times the
  value of the captured piece times the risk factor for every capture available to any
  piece, of either colour with the same sign, added after the transform.  The transform
  of the move selection is \<open>sign(score) * |score|^1.3\<close>.
\<close>

theorem hyperbolic_evaluateBoard_transform:
  "hyperbolic_evaluateBoard E this game =
     sgn (signed_mobility_sum E this game) * \<bar>signed_mobility_sum E this game\<bar> powr 1.2
     + attack_bonus E this game
   \<and> applyHyperbolicTransform score = sgn score * \<bar>score\<bar> powr 1.3"
  by (simp add: hyperbolic_evaluateBoard_def hyperbolic_loop signed_pow_def
      applyHyperbolicTransform_def)

section \<open>Move selection\<close>

lemma shuffle_set:
  assumes "rearranges G"
  shows "set (fst (shuffle G rs ms)) = set ms" "length (fst (shuffle G rs ms)) = length ms"
proof -
  from assms have m: "mset (fst (shuffle G rs ms)) = mset ms"
    by (simp add: rearranges_def)
  from m show "set (fst (shuffle G rs ms)) = set ms" by (rule mset_eq_setD)
  from m show "length (fst (shuffle G rs ms)) = length ms" by (rule mset_eq_length)
qed

lemma sort_by_heuristic_set:
  "set (sort_by_heuristic game ms) = set ms" "length (sort_by_heuristic game ms) = length ms"
  by (simp_all add: sort_by_heuristic_def)

lemma accepted_move:
  assumes "accepts_listed E" "m \<in> set (moves E game)"
  shows "\<exists>clone. make_move E game (san m) = Some clone"
  using assms unfolding accepts_listed_def by blast

text \<open>The loop of a node returns if the search one ply deeper does.\<close>

lemma minimax_loop_returns:
  assumes acc: "accepts_listed E"
    and deeper: "\<And>game alpha beta maximizing rs.
        \<exists>v rs'. minimax E G this d game alpha beta maximizing skillLevel rs = Inr (v, rs')"
    and sub: "set ms \<subseteq> set (moves E game)"
  shows "\<exists>v rs'. minimax_loop E G this d game ms best alpha beta maximizing skillLevel rs
                  = Inr (v, rs')"
  using sub
proof (induction ms arbitrary: best alpha beta rs)
  case Nil
  then show ?case by simp
next
  case (Cons m ms)
  from Cons.prems have m: "m \<in> set (moves E game)" and rest: "set ms \<subseteq> set (moves E game)"
    by simp_all
  from accepted_move[OF acc m] obtain clone where c: "make_move E game (san m) = Some clone" ..
  from deeper[of clone alpha beta "\<not> maximizing" rs] obtain ev rs' where
    e: "minimax E G this d clone alpha beta (\<not> maximizing) skillLevel rs = Inr (ev, rs')"
    by blast
  show ?case
  proof (cases maximizing)
    case True
    show ?thesis
    proof (cases "beta \<le> max alpha ev")
      case True
      with \<open>maximizing\<close> c e show ?thesis by (simp add: Let_def)
    next
      case False
      from Cons.IH[OF rest, of "max best ev" "max alpha ev" beta rs']
      show ?thesis using False \<open>maximizing\<close> c e by (simp add: Let_def)
    qed
  next
    case False
    note nm = this
    show ?thesis
    proof (cases "min beta ev \<le> alpha")
      case True
      with nm c e show ?thesis by (simp add: Let_def)
    next
      case False
      from Cons.IH[OF rest, of "min best ev" alpha "min beta ev" rs']
      show ?thesis using False nm c e by (simp add: Let_def)
    qed
  qed
qed

lemma minimax_returns:
  assumes acc: "accepts_listed E" and re: "rearranges G"
  shows "\<exists>v rs'. minimax E G this d game alpha beta maximizing skillLevel rs = Inr (v, rs')"
proof (induction d arbitrary: game alpha beta maximizing rs)
  case 0
  show ?case by simp
next
  case (Suc d)
  show ?case
  proof (cases "isGameOver E game")
    case True
    then show ?thesis by simp
  next
    case False
    obtain ms rs1 where
      pick: "(if skillLevel < 5
              then let (u, rs1) = random G rs
                   in if u < 0.3 then shuffle G rs1 (moves E game)
                      else (moves E game, rs1)
              else (sort_by_heuristic game (moves E game), rs)) = (ms, rs1)"
      by (meson surj_pair)
    have sub: "set ms \<subseteq> set (moves E game)"
    proof (cases "skillLevel < 5")
      case True
      obtain u r1 where d: "random G rs = (u, r1)" by (meson surj_pair)
      show ?thesis
      proof (cases "u < 0.3")
        case True
        with pick \<open>skillLevel < 5\<close> d have "ms = fst (shuffle G r1 (moves E game))"
          by (simp add: Let_def split: prod.splits)
        then show ?thesis using shuffle_set(1)[OF re, of r1 "moves E game"] by simp
      next
        case False
        with pick \<open>skillLevel < 5\<close> d show ?thesis by (simp add: Let_def)
      qed
    next
      case False
      with pick have "ms = sort_by_heuristic game (moves E game)" by simp
      then show ?thesis by (simp add: sort_by_heuristic_set)
    qed
    from minimax_loop_returns[OF acc Suc.IH sub,
        of "if maximizing then NegInf else PosInf" alpha beta maximizing rs1]
    obtain v rs' where
      "minimax_loop E G this d game ms (if maximizing then NegInf else PosInf)
         alpha beta maximizing skillLevel rs1 = Inr (v, rs')" by blast
    with False pick show ?thesis
      by (simp only: minimax.simps if_False Let_def prod.case) blast
  qed
qed

lemma getMove_loop_returns:
  assumes acc: "accepts_listed E" and re: "rearranges G"
    and sub: "set ms \<subseteq> set (moves E game)"
  shows "\<exists>m rs'. getMove_loop E G this game d skillLevel ms bestMove bestValue alpha beta rs
                  = Inr (Some (san m), rs') \<and> m \<in> insert bestMove (set ms)"
  using sub
proof (induction ms arbitrary: bestMove bestValue alpha beta rs)
  case Nil
  then show ?case by simp
next
  case (Cons m ms)
  from Cons.prems have m: "m \<in> set (moves E game)" and rest: "set ms \<subseteq> set (moves E game)"
    by simp_all
  from accepted_move[OF acc m] obtain clone where c: "make_move E game (san m) = Some clone" ..
  from minimax_returns[OF acc re, of this d clone alpha beta "turn E game = Black" skillLevel rs]
  obtain ev rs' where
    e: "minimax E G this d clone alpha beta (turn E game = Black) skillLevel rs = Inr (ev, rs')"
    by blast
  obtain bv bm a' b' where
    upd: "(if turn E game = White
           then (if ev > bestValue then (ev, m) else (bestValue, bestMove), max alpha ev, beta)
           else (if ev < bestValue then (ev, m) else (bestValue, bestMove), alpha, min beta ev))
          = ((bv, bm), a', b')"
    by (metis surj_pair)
  have bm: "bm = m \<or> bm = bestMove"
    using upd by (auto split: if_splits)
  show ?case
  proof (cases "(turn E game = White \<and> bv \<ge> Num 100) \<or> (turn E game = Black \<and> bv \<le> Num (- 100))")
    case True
    have "getMove_loop E G this game d skillLevel (m # ms) bestMove bestValue alpha beta rs
          = Inr (Some (san bm), rs')"
      using c e upd True by (simp only: getMove_loop.simps option.case sum.case prod.case Let_def if_True)
    with bm show ?thesis by auto
  next
    case False
    have "getMove_loop E G this game d skillLevel (m # ms) bestMove bestValue alpha beta rs
          = getMove_loop E G this game d skillLevel ms bm bv a' b' rs'"
      using c e upd False by (simp only: getMove_loop.simps option.case sum.case prod.case Let_def if_False)
    with Cons.IH[OF rest, of bm bv a' b' rs'] bm show ?thesis by auto
  qed
qed

lemma hyperbolic_getMove_loop_returns:
  assumes acc: "accepts_listed E" and sub: "set ms \<subseteq> set (moves E game)"
  shows "\<exists>m rs'. hyperbolic_getMove_loop E G this game ms bestMove bestScore rs
                  = Inr (Some (san m), rs') \<and> m \<in> insert bestMove (set ms)"
  using sub
proof (induction ms arbitrary: bestMove bestScore rs)
  case Nil
  then show ?case by simp
next
  case (Cons m ms)
  from Cons.prems have m: "m \<in> set (moves E game)" and rest: "set ms \<subseteq> set (moves E game)"
    by simp_all
  from accepted_move[OF acc m] obtain clone where c: "make_move E game (san m) = Some clone" ..
  obtain u rs' where d: "random G rs = (u, rs')" by (meson surj_pair)
  let ?score = "applyHyperbolicTransform (hyperbolic_evaluateBoard E this clone)
                + (u - 0.5) * temperature this"
  show ?case
  proof (cases "(turn E game = White \<and> Num ?score > bestScore)
                \<or> (turn E game = Black \<and> Num ?score < bestScore)")
    case True
    have "hyperbolic_getMove_loop E G this game (m # ms) bestMove bestScore rs
          = hyperbolic_getMove_loop E G this game ms m (Num ?score) rs'"
      using c d True
      by (simp only: hyperbolic_getMove_loop.simps option.case prod.case Let_def if_True)
    with Cons.IH[OF rest, of m "Num ?score" rs'] show ?thesis by auto
  next
    case False
    have "hyperbolic_getMove_loop E G this game (m # ms) bestMove bestScore rs
          = hyperbolic_getMove_loop E G this game ms bestMove bestScore rs'"
      using c d False
      by (simp only: hyperbolic_getMove_loop.simps option.case prod.case Let_def if_False)
    with Cons.IH[OF rest, of bestMove bestScore rs'] show ?thesis by auto
  qed
qed

lemma hyperbolic_getMove_returns:
  assumes acc: "accepts_listed E"
  shows "(moves E game = [] \<longrightarrow> hyperbolic_getMove E G this game rs = Inr (None, rs))
       \<and> (moves E game \<noteq> [] \<longrightarrow>
            (\<exists>s rs'. hyperbolic_getMove E G this game rs = Inr (Some s, rs')
                     \<and> s \<in> set (moves_san E game)))"
proof (cases "moves E game")
  case Nil
  then show ?thesis by (simp add: hyperbolic_getMove_def)
next
  case (Cons m0 ms)
  from hyperbolic_getMove_loop_returns[OF acc subset_refl, where G = G and this = this
      and bestMove = m0 and bestScore = "if turn E game = White then NegInf else PosInf"
      and rs = rs and game = game]
  obtain m rs' where
    r: "hyperbolic_getMove_loop E G this game (moves E game) m0
          (if turn E game = White then NegInf else PosInf) rs = Inr (Some (san m), rs')"
    and mem: "m \<in> insert m0 (set (moves E game))" by blast
  from mem Cons have "san m \<in> set (moves_san E game)"
    by (auto simp: moves_san_def)
  moreover have "hyperbolic_getMove E G this game rs = Inr (Some (san m), rs')"
    using r Cons by (simp add: hyperbolic_getMove_def Let_def)
  ultimately show ?thesis using Cons by simp
qed

text \<open>The candidate list of the root: a non-empty selection of the legal moves.\<close>

lemma candidates:
  fixes skillLevel :: real
  assumes re: "rearranges G" and ne: "moves E game \<noteq> []"
    and sel: "(if skillLevel < 5
               then let (xs, r) = shuffle G rs3 (moves E game) in (take 5 xs, r)
               else if skillLevel < 8
               then let (xs, r) = shuffle G rs3 (moves E game) in (take 15 xs, r)
               else (moves E game, rs3)) = (ms, rs4)"
  shows "set ms \<subseteq> set (moves E game) \<and> ms \<noteq> []"
proof -
  let ?xs = "fst (shuffle G rs3 (moves E game))"
  have xs: "set ?xs = set (moves E game)" "?xs \<noteq> []"
    using shuffle_set[OF re, of rs3 "moves E game"] ne by auto
  have tk: "set (take n ?xs) \<subseteq> set (moves E game) \<and> take n ?xs \<noteq> []" if "0 < n" for n
    using xs that set_take_subset[of n ?xs] by auto
  consider "skillLevel < 5" | "\<not> skillLevel < 5" "skillLevel < 8" | "\<not> skillLevel < 5" "\<not> skillLevel < 8"
    by blast
  then show ?thesis
  proof cases
    case 1
    with sel have "ms = take 5 ?xs" by (simp add: case_prod_unfold Let_def)
    with tk[of 5] show ?thesis by simp
  next
    case 2
    with sel have "ms = take 15 ?xs" by (simp add: case_prod_unfold Let_def)
    with tk[of 15] show ?thesis by simp
  next
    case 3
    with sel ne show ?thesis by simp
  qed
qed

lemma getMove_returns:
  assumes acc: "accepts_listed E" and re: "rearranges G"
  shows "(moves E game = [] \<longrightarrow> (\<exists>rs'. getMove E G this game rs = Inr (None, rs')))
       \<and> (moves E game \<noteq> [] \<longrightarrow>
            (\<exists>s rs'. getMove E G this game rs = Inr (Some s, rs')
                     \<and> s \<in> set (moves_san E game)))"
proof -
  obtain u rs1 where d1: "random G rs = (u, rs1)" by (meson surj_pair)
  obtain u1 rs2 where d2: "random G rs1 = (u1, rs2)" by (meson surj_pair)
  obtain u2 rs3 where d3: "random G rs2 = (u2, rs3)" by (meson surj_pair)
  let ?skill = "getSkillLevel this u"
  show ?thesis
  proof (cases "moves E game = []")
    case True
    then have "getMove E G this game rs = Inr (None, rs3)"
      by (simp add: getMove_def d1 d2 d3 Let_def)
    with True show ?thesis by simp
  next
    case False
    obtain ms rs4 where
      sel: "(if ?skill < 5
               then let (xs, r) = shuffle G rs3 (moves E game) in (take 5 xs, r)
               else if ?skill < 8
               then let (xs, r) = shuffle G rs3 (moves E game) in (take 15 xs, r)
               else (moves E game, rs3)) = (ms, rs4)"
      by (meson surj_pair)
    from candidates[OF re False sel] have ms: "set ms \<subseteq> set (moves E game)" "ms \<noteq> []"
      by simp_all
    let ?ms = "if ?skill \<ge> 5 then sort_by_heuristic game ms else ms"
    have ms2: "set ?ms \<subseteq> set (moves E game)" "?ms \<noteq> []"
      using ms sort_by_heuristic_set[of game ms] by auto
    then obtain m0 rest where cons: "?ms = m0 # rest" by (cases ?ms) auto
    let ?d = "getDepthForOpponent this u1 u2"
    let ?pc = "length (filter (\<lambda>p. p \<noteq> None) (concat (board E game)))"
    let ?depth = "if ?pc > 20 then max 1 (?d - 2) else if ?pc > 10 then max 1 (?d - 1) else ?d"
    from getMove_loop_returns[OF acc re ms2(1), where this = this and d = "nat (?depth - 1)"
        and skillLevel = ?skill and bestMove = m0
        and bestValue = "if turn E game = White then NegInf else PosInf"
        and alpha = NegInf and beta = PosInf and rs = rs4]
    obtain m rs' where
      r: "getMove_loop E G this game (nat (?depth - 1)) ?skill ?ms m0
            (if turn E game = White then NegInf else PosInf) NegInf PosInf rs4
          = Inr (Some (san m), rs')"
      and mem: "m \<in> insert m0 (set ?ms)" by blast
    from mem cons have "m \<in> set ?ms" by auto
    with ms2(1) have legal: "san m \<in> set (moves_san E game)"
      by (auto simp: moves_san_def)
    have "getMove E G this game rs = Inr (Some (san m), rs')"
      unfolding getMove_def d1 d2 d3 Let_def prod.case
      using False sel[unfolded Let_def] cons r
      by (simp only: length_0_conv if_False prod.case list.case)
    with legal False show ?thesis by blast
  qed
qed

text \<open>
  Claim C2.  For a position with no legal moves, \<open>getMove\<close> of either engine returns
  null; for a position with a legal move, \<open>getMove\<close> of either engine returns the SAN of
  one of the legal moves of that position, whatever the random source yields.  The rules
  engine is any engine that accepts the moves it lists, and the random sort is any that
  rearranges its list.
\<close>

theorem getMove_null_or_legal:
  assumes "accepts_listed E" and "rearranges G"
  shows "(moves E game = [] \<longrightarrow>
            (\<exists>rs'. getMove E G adaptive game rs = Inr (None, rs'))
            \<and> (\<exists>rs'. hyperbolic_getMove E G hyperbolic game rs = Inr (None, rs')))
       \<and> (moves E game \<noteq> [] \<longrightarrow>
            (\<exists>s rs'. getMove E G adaptive game rs = Inr (Some s, rs')
                     \<and> s \<in> set (moves_san E game))
            \<and> (\<exists>s rs'. hyperbolic_getMove E G hyperbolic game rs = Inr (Some s, rs')
                     \<and> s \<in> set (moves_san E game)))"
  using getMove_returns[OF assms, where game = game and this = adaptive and rs = rs]
    hyperbolic_getMove_returns[OF assms(1), where game = game and G = G
      and this = hyperbolic and rs = rs]
  by blast

theorem getMove_null_or_legal_witness:
  "accepts_listed given_rules \<and> rearranges cycle_rng
   \<and> moves given_rules mated = []
   \<and> (\<exists>rs'. getMove given_rules cycle_rng new_AdaptiveChessAI mated 0 = Inr (None, rs'))
   \<and> (\<exists>rs'. hyperbolic_getMove given_rules cycle_rng new_HyperbolicChessAI mated 0
               = Inr (None, rs'))
   \<and> moves given_rules before_g7 \<noteq> []
   \<and> (\<exists>s rs'. getMove given_rules cycle_rng new_AdaptiveChessAI before_g7 0
                 = Inr (Some s, rs')
               \<and> s \<in> set (moves_san given_rules before_g7))
   \<and> (\<exists>s rs'. hyperbolic_getMove given_rules cycle_rng new_HyperbolicChessAI before_g7 0
                 = Inr (Some s, rs')
               \<and> s \<in> set (moves_san given_rules before_g7))"
proof -
  have a: "moves given_rules mated = []"
    by code_simp
  have b: "moves given_rules before_g7 \<noteq> []"
    by code_simp
  from getMove_null_or_legal[OF given_rules_accepts cycle_rng_rearranges,
      of mated new_AdaptiveChessAI 0 new_HyperbolicChessAI]
    getMove_null_or_legal[OF given_rules_accepts cycle_rng_rearranges,
      of before_g7 new_AdaptiveChessAI 0 new_HyperbolicChessAI]
    a b given_rules_accepts cycle_rng_rearranges
  show ?thesis by blast
qed

end
